theory Spec2Isabelle
  imports Complex_Main
begin

text \<open>
  A sequential model of the inventory core of the e-commerce API: the lock manager
  (src/utils/distributed-lock.ts), the cart service, the order service and the payment
  service. One call runs at a time, and the clock does not advance within a call: every
  \<^verbatim>\<open>new Date()\<close> and \<^verbatim>\<open>Date.now()\<close> of one call reads the same instant, the
  argument \<open>now\<close> (milliseconds).

  Columns that no branch of the modelled code reads are left out: names, images, prices and
  amounts (floating point), the shipping address text, the payment method of an order and
  the timestamps. The in-process response cache is not part of the persisted state and is
  left out as well.
\<close>

section \<open>Failures\<close>

text \<open>
  The services signal a failure by throwing an \<^verbatim>\<open>Error\<close> with a message; the model
  returns \<open>Inl\<close> of one constructor per kind of failure. \<open>RecordNotFound\<close> is the error
  that Prisma raises when \<^verbatim>\<open>update\<close> finds no row, \<open>LockTimeout\<close> the error that
  \<^verbatim>\<open>withLock\<close> throws when \<^verbatim>\<open>acquire\<close> answers null, and \<open>ValidationError\<close>
  the 400 answer of a controller whose schema rejects the request body.
\<close>

datatype error =
    CartIsEmpty
  | AddressNotFound
  | ProductUnavailable
  | ReservationExpired
  | InsufficientStock
  | LockTimeout
  | OrderNotFound
  | NotCancellable
  | SubOrderNotFound
  | OrderItemNotFound
  | InvalidTransition
  | RecordNotFound
  | MissingIdentity
  | CartAlreadyExists
  | ValidationError

section \<open>Lock manager (src/utils/distributed-lock.ts)\<close>

text \<open>
  The lock store is the Redis keyspace, a partial map from key strings to value strings.
  The expiry of a key (the \<^verbatim>\<open>PX ttl\<close> argument of \<^verbatim>\<open>SET\<close>) is an action of the
  store itself and is not part of this sequential model: a key stays until it is deleted.
  The token \<^verbatim>\<open>`${Date.now()}-${Math.random()}`\<close> that \<^verbatim>\<open>acquire\<close> draws is an
  argument of the model.
\<close>

type_synonym redis = "string \<rightharpoonup> string"

text \<open>
  \<^verbatim>\<open>acquire\<close> polls \<^verbatim>\<open>SET lockKey token PX ttl NX\<close> until it answers OK or
  \<^verbatim>\<open>timeout\<close> milliseconds have passed. In a sequential run nothing changes the store
  between two polls, so every poll answers what the first one does: the token when the key
  is absent, and \<^verbatim>\<open>null\<close> (here \<open>None\<close>) after the timeout when it is present.
  Every caller passes a positive \<^verbatim>\<open>ttl\<close> and \<^verbatim>\<open>timeout\<close> (10 s and 15 s), which
  have no other effect here and are not arguments of the model.
\<close>

definition acquire :: "string \<Rightarrow> string \<Rightarrow> redis \<Rightarrow> string option \<times> redis" where
  "acquire key token r =
     (let lockKey = ''lock:'' @ key in
      if r lockKey = None then (Some token, r(lockKey \<mapsto> token)) else (None, r))"

text \<open>
  \<^verbatim>\<open>release\<close> runs the Lua script
  \<^verbatim>\<open>if redis.call("get", KEYS[1]) == ARGV[1] then return redis.call("del", KEYS[1]) else return 0 end\<close>
  and answers \<^verbatim>\<open>result === 1\<close>.
\<close>

definition release :: "string \<Rightarrow> string \<Rightarrow> redis \<Rightarrow> bool \<times> redis" where
  "release key token r =
     (let lockKey = ''lock:'' @ key in
      if r lockKey = Some token then (True, r(lockKey := None)) else (False, r))"

text \<open>
  \<^verbatim>\<open>withLock(key, fn, ttl, timeout)\<close>: acquire, run \<^verbatim>\<open>fn\<close>, release in the
  \<^verbatim>\<open>finally\<close> block whatever \<^verbatim>\<open>fn\<close> returned or threw. The closures passed by
  the services work on the database only, so \<^verbatim>\<open>fn\<close> is a function on the database
  state \<open>'s\<close>.
\<close>

definition withLock ::
  "string \<Rightarrow> string \<Rightarrow> ('s \<Rightarrow> (error + 'a) \<times> 's) \<Rightarrow> 's \<times> redis \<Rightarrow> (error + 'a) \<times> 's \<times> redis" where
  "withLock key tok fn = (\<lambda>(s, r).
     case acquire key tok r of
       (None, r1) \<Rightarrow> (Inl LockTimeout, s, r1)
     | (Some t, r1) \<Rightarrow>
         (let (res, s') = fn s; (_, r2) = release key t r1 in (res, s', r2)))"

definition stockLockKey :: "string \<Rightarrow> string" where
  "stockLockKey product_id = ''product:'' @ product_id @ '':stock''"

section \<open>Data model (prisma/migrations, src/types)\<close>

text \<open>
  Products, users (customers and sellers), sessions and addresses are created outside the
  modelled operations and keep the source's string identifiers. Carts, cart items, orders
  and order items are created by the modelled operations; the database gives them a fresh
  identifier (\<^verbatim>\<open>uuid()\<close>), which the model draws from the counter \<open>next_id\<close>.
  The product table is a map from the primary key; the other tables are lists of rows in
  creation order, so that \<^verbatim>\<open>orderBy: { created_at: 'desc' }\<close> reads the last match.
  Integer columns are unbounded integers.
\<close>

datatype OrderStatus = PENDING | CONFIRMED | SHIPPED | DELIVERED | CANCELLED

datatype PaymentStatus = PAYMENT_PENDING | PROCESSING | PAID | FAILED | REFUNDED

record product =
  p_stock :: int
  p_seller :: string

record cart =
  c_id :: nat
  c_user :: "string option"
  c_session :: "string option"
  c_expires :: "int option"

record cart_item =
  ci_id :: nat
  ci_cart :: nat
  ci_product :: string
  ci_quantity :: int
  ci_expires :: "int option"

record order =
  o_id :: nat
  o_user :: string
  o_parent :: "nat option"
  o_seller :: "string option"
  o_status :: OrderStatus
  o_payment :: PaymentStatus
  o_is_parent :: bool

record order_item =
  oi_id :: nat
  oi_order :: nat
  oi_product :: string
  oi_seller :: string
  oi_quantity :: int
  oi_status :: OrderStatus

record db =
  products :: "string \<rightharpoonup> product"
  addresses :: "string \<rightharpoonup> string"
  carts :: "cart list"
  cart_items :: "cart_item list"
  orders :: "order list"
  order_items :: "order_item list"
  next_id :: nat

text \<open>
  \<^verbatim>\<open>prisma.$transaction(async (tx) => ...)\<close>: when the callback throws, every write made
  through \<^verbatim>\<open>tx\<close> is rolled back. The lock store is not part of the transaction.
\<close>

definition transaction ::
  "(db \<times> redis \<Rightarrow> (error + 'a) \<times> db \<times> redis) \<Rightarrow> db \<times> redis \<Rightarrow> (error + 'a) \<times> db \<times> redis" where
  "transaction body = (\<lambda>(d, r).
     case body (d, r) of
       (Inl e, d', r') \<Rightarrow> (Inl e, d, r')
     | (Inr v, d', r') \<Rightarrow> (Inr v, d', r'))"

text \<open>The same for a transaction whose callback takes no lock.\<close>

definition transaction_db :: "(db \<Rightarrow> (error + 'a) \<times> db) \<Rightarrow> db \<Rightarrow> (error + 'a) \<times> db" where
  "transaction_db body d =
     (case body d of
        (Inl e, d') \<Rightarrow> (Inl e, d)
      | (Inr v, d') \<Rightarrow> (Inr v, d'))"

subsection \<open>Row operations\<close>

definition order_findUnique :: "nat \<Rightarrow> db \<Rightarrow> order option" where
  "order_findUnique oid d = find (\<lambda>od. o_id od = oid) (orders d)"

text \<open>\<^verbatim>\<open>update\<close> throws (P2025) when no row has the identifier.\<close>

definition order_update :: "nat \<Rightarrow> (order \<Rightarrow> order) \<Rightarrow> db \<Rightarrow> error + db" where
  "order_update oid f d =
     (if order_findUnique oid d = None then Inl RecordNotFound
      else Inr (d\<lparr>orders := map (\<lambda>od. if o_id od = oid then f od else od) (orders d)\<rparr>))"

definition order_updateMany :: "(order \<Rightarrow> bool) \<Rightarrow> (order \<Rightarrow> order) \<Rightarrow> db \<Rightarrow> db" where
  "order_updateMany P f d = d\<lparr>orders := map (\<lambda>od. if P od then f od else od) (orders d)\<rparr>"

definition orderItem_update :: "nat \<Rightarrow> (order_item \<Rightarrow> order_item) \<Rightarrow> db \<Rightarrow> error + db" where
  "orderItem_update iid f d =
     (if find (\<lambda>i. oi_id i = iid) (order_items d) = None then Inl RecordNotFound
      else Inr (d\<lparr>order_items := map (\<lambda>i. if oi_id i = iid then f i else i) (order_items d)\<rparr>))"

definition orderItem_updateMany :: "(order_item \<Rightarrow> bool) \<Rightarrow> (order_item \<Rightarrow> order_item) \<Rightarrow> db \<Rightarrow> db" where
  "orderItem_updateMany P f d =
     d\<lparr>order_items := map (\<lambda>i. if P i then f i else i) (order_items d)\<rparr>"

definition items_of :: "db \<Rightarrow> nat \<Rightarrow> order_item list" where
  "items_of d oid = filter (\<lambda>i. oi_order i = oid) (order_items d)"

definition sub_orders :: "db \<Rightarrow> nat \<Rightarrow> order list" where
  "sub_orders d oid = filter (\<lambda>od. o_parent od = Some oid) (orders d)"

section \<open>Order status machine (OrderService.updateOrderItemStatus)\<close>

fun validTransitions :: "OrderStatus \<Rightarrow> OrderStatus list option" where
  "validTransitions PENDING = Some [CONFIRMED, CANCELLED]"
| "validTransitions CONFIRMED = Some [SHIPPED]"
| "validTransitions SHIPPED = Some [DELIVERED]"
| "validTransitions DELIVERED = None"
| "validTransitions CANCELLED = None"

text \<open>\<^verbatim>\<open>!validTransitions[currentStatus]?.includes(status)\<close>\<close>

definition transitionRejected :: "OrderStatus \<Rightarrow> OrderStatus \<Rightarrow> bool" where
  "transitionRejected currentStatus status =
     (case validTransitions currentStatus of
        None \<Rightarrow> True
      | Some allowed \<Rightarrow> status \<notin> set allowed)"

text \<open>The callback of the transaction in \<^verbatim>\<open>updateOrderItemStatus\<close>.\<close>

definition updateStatusTx :: "nat \<Rightarrow> OrderStatus \<Rightarrow> db \<Rightarrow> (error + order_item) \<times> db" where
  "updateStatusTx orderItemId status d =
     (case orderItem_update orderItemId (\<lambda>i. i\<lparr>oi_status := status\<rparr>) d of
        Inl e \<Rightarrow> (Inl e, d)
      | Inr d1 \<Rightarrow>
         (case find (\<lambda>i. oi_id i = orderItemId) (order_items d1) of
            None \<Rightarrow> (Inl RecordNotFound, d1)
          | Some updatedItem \<Rightarrow>
             (let subOrder = order_findUnique (oi_order updatedItem) d1 in
              case order_update (oi_order updatedItem) (\<lambda>od. od\<lparr>o_status := status\<rparr>) d1 of
                Inl e \<Rightarrow> (Inl e, d1)
              | Inr d2 \<Rightarrow>
                 (case Option.bind subOrder o_parent of
                    None \<Rightarrow> (Inr updatedItem, d2)
                  | Some parent_order_id \<Rightarrow>
                     (case order_update parent_order_id (\<lambda>od. od\<lparr>o_status := status\<rparr>) d2 of
                        Inl e \<Rightarrow> (Inl e, d2)
                      | Inr d3 \<Rightarrow> (Inr updatedItem, d3))))))"

definition updateOrderItemStatus ::
  "string \<Rightarrow> nat \<Rightarrow> OrderStatus \<Rightarrow> db \<Rightarrow> (error + order_item) \<times> db" where
  "updateOrderItemStatus sellerId orderItemId status d =
     (case find (\<lambda>i. oi_id i = orderItemId \<and> oi_seller i = sellerId) (order_items d) of
        None \<Rightarrow> (Inl OrderItemNotFound, d)
      | Some orderItem \<Rightarrow>
         if transitionRejected (oi_status orderItem) status then (Inl InvalidTransition, d)
         else transaction_db (updateStatusTx orderItemId status) d)"

section \<open>Payment service (src/services/payment.service.ts)\<close>

datatype PaymentMethod = CREDIT_CARD | DEBIT_CARD | PAYPAL | BANK_TRANSFER | CASH_ON_DELIVERY

record payment_response =
  pr_success :: bool
  pr_status :: PaymentStatus

text \<open>The value of \<^verbatim>\<open>Math.random()\<close> is the argument \<open>rnd\<close>.\<close>

definition simulatePaymentGateway :: "PaymentMethod \<Rightarrow> string option \<Rightarrow> real \<Rightarrow> bool" where
  "simulatePaymentGateway payment_method card_number rnd =
     (if payment_method = CASH_ON_DELIVERY then True
      else if payment_method = CREDIT_CARD \<or> payment_method = DEBIT_CARD then
        (if card_number = Some ''4111111111111111'' then True
         else if card_number = Some ''4000000000000002'' then False
         else rnd > 0.1)
      else rnd > 0.05)"

text \<open>The callback of the transaction that \<^verbatim>\<open>processPayment\<close> runs on success.\<close>

definition markPaidTx :: "nat \<Rightarrow> (order \<times> order list) option \<Rightarrow> db \<Rightarrow> (error + unit) \<times> db" where
  "markPaidTx order_id orderWithSubs d =
     (case order_update order_id (\<lambda>od. od\<lparr>o_payment := PAID, o_status := CONFIRMED\<rparr>) d of
        Inl e \<Rightarrow> (Inl e, d)
      | Inr d1 \<Rightarrow>
         if (case orderWithSubs of
               None \<Rightarrow> False
             | Some (ow, subs) \<Rightarrow> o_is_parent ow \<and> length subs > 0)
         then
           (let d2 = order_updateMany (\<lambda>od. o_parent od = Some order_id)
                       (\<lambda>od. od\<lparr>o_payment := PAID, o_status := CONFIRMED\<rparr>) d1;
                subOrderIds = (case orderWithSubs of
                                 None \<Rightarrow> []
                               | Some (ow, subs) \<Rightarrow> map o_id subs);
                d3 = orderItem_updateMany (\<lambda>i. oi_order i \<in> set subOrderIds)
                       (\<lambda>i. i\<lparr>oi_status := CONFIRMED\<rparr>) d2
            in (Inr (), d3))
         else
           (Inr (), orderItem_updateMany (\<lambda>i. oi_order i = order_id)
                      (\<lambda>i. i\<lparr>oi_status := CONFIRMED\<rparr>) d1))"

definition processPayment ::
  "nat \<Rightarrow> PaymentMethod \<Rightarrow> string option \<Rightarrow> real \<Rightarrow> db \<Rightarrow> (error + payment_response) \<times> db" where
  "processPayment order_id payment_method card_number rnd d =
     (case order_findUnique order_id d of
        None \<Rightarrow> (Inl OrderNotFound, d)
      | Some order \<Rightarrow>
         if o_payment order = PAID
         then (Inr \<lparr>pr_success = True, pr_status = PAID\<rparr>, d)
         else
           (case order_update order_id (\<lambda>od. od\<lparr>o_payment := PROCESSING\<rparr>) d of
              Inl e \<Rightarrow> (Inl e, d)
            | Inr d1 \<Rightarrow>
               (let isSuccess = simulatePaymentGateway payment_method card_number rnd in
                if isSuccess then
                  (let orderWithSubs =
                         map_option (\<lambda>ow. (ow, sub_orders d1 order_id)) (order_findUnique order_id d1)
                   in case transaction_db (markPaidTx order_id orderWithSubs) d1 of
                        (Inl e, d2) \<Rightarrow> (Inl e, d2)
                      | (Inr u, d2) \<Rightarrow> (Inr \<lparr>pr_success = True, pr_status = PAID\<rparr>, d2))
                else
                  (case order_update order_id (\<lambda>od. od\<lparr>o_payment := FAILED\<rparr>) d1 of
                     Inl e \<Rightarrow> (Inl e, d1)
                   | Inr d2 \<Rightarrow> (Inr \<lparr>pr_success = False, pr_status = FAILED\<rparr>, d2)))))"

section \<open>Cart service (CartService)\<close>

definition RESERVATION_TTL_MINUTES :: int where
  "RESERVATION_TTL_MINUTES = 15"

definition ANONYMOUS_CART_TTL_HOURS :: int where
  "ANONYMOUS_CART_TTL_HOURS = 24"

text \<open>JavaScript truthiness of a \<^verbatim>\<open>string | null\<close>: null and the empty string are falsy.\<close>

definition truthy :: "string option \<Rightarrow> bool" where
  "truthy x = (case x of None \<Rightarrow> False | Some s \<Rightarrow> s \<noteq> [])"

text \<open>
  The filter \<^verbatim>\<open>OR: [{ reservation_expires_at: { gt: now } }, { reservation_expires_at: null }]\<close>.
\<close>

definition activeReservation :: "int \<Rightarrow> cart_item \<Rightarrow> bool" where
  "activeReservation now i = (case ci_expires i of None \<Rightarrow> True | Some e \<Rightarrow> now < e)"

text \<open>The filter \<^verbatim>\<open>reservation_expires_at: { lt: now }\<close>; a null column never matches.\<close>

definition expiredReservation :: "int \<Rightarrow> cart_item \<Rightarrow> bool" where
  "expiredReservation now i = (case ci_expires i of None \<Rightarrow> False | Some e \<Rightarrow> e < now)"

text \<open>
  \<^verbatim>\<open>cartItem.aggregate({ where: { product_id, ..., OR: [...] }, _sum: { quantity: true } })\<close>
  followed by \<^verbatim>\<open>_sum.quantity || 0\<close>; \<open>P\<close> is the extra condition of the query.
\<close>

definition reservedQuantity :: "(cart_item \<Rightarrow> bool) \<Rightarrow> int \<Rightarrow> string \<Rightarrow> db \<Rightarrow> int" where
  "reservedQuantity P now product_id d =
     sum_list (map ci_quantity
       (filter (\<lambda>i. ci_product i = product_id \<and> P i \<and> activeReservation now i) (cart_items d)))"

text \<open>\<^verbatim>\<open>findFirst\<close> with \<^verbatim>\<open>orderBy: { created_at: 'desc' }\<close>.\<close>

definition find_latest :: "('a \<Rightarrow> bool) \<Rightarrow> 'a list \<Rightarrow> 'a option" where
  "find_latest P xs = find P (rev xs)"

definition cart_create :: "cart \<Rightarrow> db \<Rightarrow> cart \<times> db" where
  "cart_create row d =
     (row\<lparr>c_id := next_id d\<rparr>,
      d\<lparr>carts := carts d @ [row\<lparr>c_id := next_id d\<rparr>], next_id := Suc (next_id d)\<rparr>)"

text \<open>Deleting a cart deletes its items (\<^verbatim>\<open>CartItem_cart_id_fkey ... ON DELETE CASCADE\<close>).\<close>

definition cart_deleteMany :: "(cart \<Rightarrow> bool) \<Rightarrow> db \<Rightarrow> db" where
  "cart_deleteMany P d =
     d\<lparr>carts := filter (\<lambda>c. \<not> P c) (carts d),
       cart_items := filter (\<lambda>i. ci_cart i \<notin> set (map c_id (filter P (carts d)))) (cart_items d)\<rparr>"

definition cartItem_findUnique :: "nat \<Rightarrow> string \<Rightarrow> db \<Rightarrow> cart_item option" where
  "cartItem_findUnique cart_id product_id d =
     find (\<lambda>i. ci_cart i = cart_id \<and> ci_product i = product_id) (cart_items d)"

definition cartItem_create :: "cart_item \<Rightarrow> db \<Rightarrow> db" where
  "cartItem_create row d =
     d\<lparr>cart_items := cart_items d @ [row\<lparr>ci_id := next_id d\<rparr>], next_id := Suc (next_id d)\<rparr>"

definition cartItem_update :: "nat \<Rightarrow> (cart_item \<Rightarrow> cart_item) \<Rightarrow> db \<Rightarrow> error + db" where
  "cartItem_update iid f d =
     (if find (\<lambda>i. ci_id i = iid) (cart_items d) = None then Inl RecordNotFound
      else Inr (d\<lparr>cart_items := map (\<lambda>i. if ci_id i = iid then f i else i) (cart_items d)\<rparr>))"

definition cartItem_deleteMany :: "(cart_item \<Rightarrow> bool) \<Rightarrow> db \<Rightarrow> db" where
  "cartItem_deleteMany P d = d\<lparr>cart_items := filter (\<lambda>i. \<not> P i) (cart_items d)\<rparr>"

subsection \<open>getCart\<close>

text \<open>
  The response keeps the cart identifier (the source answers the empty string when the
  caller has no cart), the item count and the item rows; the grouping of the rows by seller
  and the prices are left out.
\<close>

record cart_response =
  cr_id :: "nat option"
  cr_total_items :: int
  cr_items :: "cart_item list"

definition getCart :: "int \<Rightarrow> string option \<Rightarrow> string option \<Rightarrow> db \<Rightarrow> (error + cart_response) \<times> db" where
  "getCart now userId sessionId d =
     (if \<not> truthy userId \<and> \<not> truthy sessionId then (Inl MissingIdentity, d)
      else
        (let d1 = cart_deleteMany (\<lambda>c. case c_expires c of None \<Rightarrow> False | Some e \<Rightarrow> e < now) d;
             cart = (if truthy userId
                     then find_latest (\<lambda>c. c_user c = userId) (carts d1)
                     else find_latest (\<lambda>c. c_session c = sessionId \<and> c_user c = None) (carts d1))
         in case cart of
              None \<Rightarrow> (Inr \<lparr>cr_id = None, cr_total_items = 0, cr_items = []\<rparr>, d1)
            | Some cart \<Rightarrow>
               (let items = filter (\<lambda>i. ci_cart i = c_id cart) (cart_items d1);
                    itemsToRemove =
                      filter (\<lambda>i. case products d1 (ci_product i) of
                                     None \<Rightarrow> False
                                   | Some p \<Rightarrow> p_stock p = 0) items;
                    d2 = (if length itemsToRemove > 0
                          then cartItem_deleteMany (\<lambda>i. ci_id i \<in> set (map ci_id itemsToRemove)) d1
                          else d1);
                    d3 = cartItem_deleteMany
                           (\<lambda>i. ci_cart i = c_id cart \<and> expiredReservation now i) d2
                in case find (\<lambda>c. c_id c = c_id cart) (carts d3) of
                     None \<Rightarrow> (Inr \<lparr>cr_id = Some (c_id cart), cr_total_items = 0, cr_items = []\<rparr>, d3)
                   | Some updatedCart \<Rightarrow>
                      (let rows = filter (\<lambda>i. ci_cart i = c_id updatedCart) (cart_items d3)
                       in (Inr \<lparr>cr_id = Some (c_id updatedCart),
                                cr_total_items = sum_list (map ci_quantity rows),
                                cr_items = rows\<rparr>, d3)))))"

subsection \<open>addToCart\<close>

text \<open>
  The lookup \<^verbatim>\<open>userId ? findFirst(user) : sessionId ? findFirst(session, user_id: null) : null\<close>.
\<close>

definition findCart :: "string option \<Rightarrow> string option \<Rightarrow> db \<Rightarrow> cart option" where
  "findCart userId sessionId d =
     (if truthy userId then find (\<lambda>c. c_user c = userId) (carts d)
      else if truthy sessionId
      then find (\<lambda>c. c_session c = sessionId \<and> c_user c = None) (carts d)
      else None)"

text \<open>
  Find or create the cart. \<^verbatim>\<open>prisma.cart.create\<close> is taken to succeed: the
  \<^verbatim>\<open>catch\<close> block of the source handles a cart created by a concurrent request, which a
  sequential run does not have.
\<close>

definition resolveCart :: "int \<Rightarrow> string option \<Rightarrow> string option \<Rightarrow> db \<Rightarrow> (error + cart) \<times> db" where
  "resolveCart now userId sessionId d =
     (case findCart userId sessionId d of
        Some cart \<Rightarrow> (Inr cart, d)
      | None \<Rightarrow>
         if \<not> truthy userId \<and> \<not> truthy sessionId then (Inl MissingIdentity, d)
         else
           (let existingCart =
                  (if truthy userId then find (\<lambda>c. c_user c = userId) (carts d)
                   else find (\<lambda>c. c_session c = sessionId \<and> c_user c = None) (carts d))
            in if existingCart \<noteq> None then (Inl CartAlreadyExists, d)
               else
                 (let expiresAt = (if truthy sessionId
                                   then Some (now + ANONYMOUS_CART_TTL_HOURS * 60 * 60 * 1000)
                                   else None);
                      (cart, d1) = cart_create
                         \<lparr>c_id = 0,
                          c_user = (if truthy userId then userId else None),
                          c_session = (if truthy sessionId then sessionId else None),
                          c_expires = expiresAt\<rparr> d
                  in (Inr cart, d1))))"

text \<open>The closure that \<^verbatim>\<open>addToCart\<close> runs under the product's lock.\<close>

definition addToCartLocked ::
  "int \<Rightarrow> string option \<Rightarrow> string option \<Rightarrow> string \<Rightarrow> int \<Rightarrow> db \<Rightarrow> (error + cart_response) \<times> db" where
  "addToCartLocked now userId sessionId product_id quantity d =
     (case products d product_id of
        None \<Rightarrow> (Inl ProductUnavailable, d)
      | Some product \<Rightarrow>
         (let totalReserved = reservedQuantity (\<lambda>i. True) now product_id d;
              availableStock = p_stock product - totalReserved
          in if availableStock < quantity then (Inl InsufficientStock, d)
             else
               (case resolveCart now userId sessionId d of
                  (Inl e, d1) \<Rightarrow> (Inl e, d1)
                | (Inr cart, d1) \<Rightarrow>
                   (let existingItem = cartItem_findUnique (c_id cart) product_id d1;
                        reservationExpiresAt = now + RESERVATION_TTL_MINUTES * 60 * 1000
                    in case existingItem of
                         Some existing \<Rightarrow>
                           (let newQuantity = quantity;
                                reservedOther =
                                  reservedQuantity (\<lambda>i. ci_id i \<noteq> ci_id existing) now product_id d1;
                                availableStock = p_stock product - reservedOther
                            in if availableStock < newQuantity then (Inl InsufficientStock, d1)
                               else
                                 (case cartItem_update (ci_id existing)
                                         (\<lambda>i. i\<lparr>ci_quantity := newQuantity,
                                                ci_expires := Some reservationExpiresAt\<rparr>) d1 of
                                    Inl e \<Rightarrow> (Inl e, d1)
                                  | Inr d2 \<Rightarrow> getCart now userId sessionId d2))
                       | None \<Rightarrow>
                           getCart now userId sessionId
                             (cartItem_create
                                \<lparr>ci_id = 0, ci_cart = c_id cart, ci_product = product_id,
                                 ci_quantity = quantity,
                                 ci_expires = Some reservationExpiresAt\<rparr> d1)))))"

definition addToCart ::
  "string \<Rightarrow> int \<Rightarrow> string option \<Rightarrow> string option \<Rightarrow> string \<Rightarrow> int \<Rightarrow> db \<times> redis
     \<Rightarrow> (error + cart_response) \<times> db \<times> redis" where
  "addToCart tok now userId sessionId product_id quantity s =
     (if \<not> truthy userId \<and> \<not> truthy sessionId then (Inl MissingIdentity, s)
      else withLock (stockLockKey product_id) tok
             (addToCartLocked now userId sessionId product_id quantity) s)"

text \<open>
  The controller (src/controllers/cart.controller.ts, \<^verbatim>\<open>addToCart\<close>) parses the request
  body with \<^verbatim>\<open>addToCartSchema\<close> (src/types/cart.ts), whose quantity is
  \<^verbatim>\<open>z.number().int().positive()\<close>, and answers 400 without calling the service when
  the parse fails.
\<close>

definition addToCartRequest ::
  "string \<Rightarrow> int \<Rightarrow> string option \<Rightarrow> string option \<Rightarrow> string \<Rightarrow> int \<Rightarrow> db \<times> redis
     \<Rightarrow> (error + cart_response) \<times> db \<times> redis" where
  "addToCartRequest tok now userId sessionId product_id quantity s =
     (if \<not> 0 < quantity then (Inl ValidationError, s)
      else addToCart tok now userId sessionId product_id quantity s)"

subsection \<open>mergeAnonymousCart\<close>



text \<open>
  Cart items are loaded with their product (\<^verbatim>\<open>include: { product: true }\<close>). The foreign
  key \<^verbatim>\<open>CartItem_product_id_fkey\<close> gives every item a product row; the join skips an
  item without one.
\<close>

definition loadItems :: "db \<Rightarrow> nat \<Rightarrow> (cart_item \<times> product) list" where
  "loadItems d cart_id =
     List.map_filter (\<lambda>i. map_option (Pair i) (products d (ci_product i)))
       (filter (\<lambda>i. ci_cart i = cart_id) (cart_items d))"



section \<open>Order service (OrderService)\<close>

record order_response =
  or_order :: order
  or_items :: "order_item list"

definition order_create :: "order \<Rightarrow> db \<Rightarrow> nat \<times> db" where
  "order_create row d =
     (next_id d,
      d\<lparr>orders := orders d @ [row\<lparr>o_id := next_id d\<rparr>], next_id := Suc (next_id d)\<rparr>)"

definition orderItem_create :: "order_item \<Rightarrow> db \<Rightarrow> db" where
  "orderItem_create row d =
     d\<lparr>order_items := order_items d @ [row\<lparr>oi_id := next_id d\<rparr>], next_id := Suc (next_id d)\<rparr>"

text \<open>
  \<^verbatim>\<open>tx.product.updateMany({ where: { id, stock: { gte: quantity } }, data: { stock: { decrement: quantity } } })\<close>;
  the result is the number of rows changed.
\<close>

definition product_decrementIfAvailable :: "string \<Rightarrow> int \<Rightarrow> db \<Rightarrow> nat \<times> db" where
  "product_decrementIfAvailable product_id quantity d =
     (case products d product_id of
        None \<Rightarrow> (0, d)
      | Some p \<Rightarrow>
         if p_stock p \<ge> quantity
         then (1, d\<lparr>products := (products d)(product_id \<mapsto> p\<lparr>p_stock := p_stock p - quantity\<rparr>)\<rparr>)
         else (0, d))"

text \<open>
  \<^verbatim>\<open>tx.product.update({ where: { id }, data: { stock: { increment: quantity } } })\<close>
\<close>

definition product_increment :: "string \<Rightarrow> int \<Rightarrow> db \<Rightarrow> error + db" where
  "product_increment product_id quantity d =
     (case products d product_id of
        None \<Rightarrow> Inl RecordNotFound
      | Some p \<Rightarrow>
         Inr (d\<lparr>products := (products d)(product_id \<mapsto> p\<lparr>p_stock := p_stock p + quantity\<rparr>)\<rparr>))"

subsection \<open>getOrderById\<close>

definition getOrderById :: "string \<Rightarrow> nat \<Rightarrow> db \<Rightarrow> error + order_response" where
  "getOrderById userId orderId d =
     (case find (\<lambda>od. o_id od = orderId \<and> o_user od = userId) (orders d) of
        None \<Rightarrow> Inl OrderNotFound
      | Some order \<Rightarrow>
         (let subs = sub_orders d (o_id order) in
          if o_is_parent order \<and> length subs > 0
          then Inr \<lparr>or_order = order,
                    or_items = concat (map (\<lambda>subOrder. items_of d (o_id subOrder)) subs)\<rparr>
          else Inr \<lparr>or_order = order, or_items = items_of d (o_id order)\<rparr>))"

subsection \<open>createOrder\<close>

text \<open>The validation loop that runs before the transaction; the first failure is thrown.\<close>

fun validateItems :: "int \<Rightarrow> nat \<Rightarrow> (cart_item \<times> product) list \<Rightarrow> db \<Rightarrow> error option" where
  "validateItems now cart_id [] d = None"
| "validateItems now cart_id ((item, prd) # rest) d =
     (case products d (ci_product item) of
        None \<Rightarrow> Some ProductUnavailable
      | Some currentProduct \<Rightarrow>
         if expiredReservation now item then Some ReservationExpired
         else
           (let totalReservedByOthers =
                  reservedQuantity (\<lambda>i. ci_cart i \<noteq> cart_id) now (ci_product item) d;
                availableStock = p_stock currentProduct - totalReservedByOthers
            in if availableStock < ci_quantity item then Some InsufficientStock
               else validateItems now cart_id rest d))"

text \<open>
  \<^verbatim>\<open>itemsBySeller\<close>: the \<^verbatim>\<open>reduce\<close> that groups the cart items under
  \<^verbatim>\<open>item.product.seller_id\<close>. \<^verbatim>\<open>Object.entries\<close> lists the groups in the order in which
  their keys were first inserted (seller identifiers are UUID strings).
\<close>

fun pushBySeller ::
  "(cart_item \<times> product) \<Rightarrow> (string \<times> (cart_item \<times> product) list) list
     \<Rightarrow> (string \<times> (cart_item \<times> product) list) list" where
  "pushBySeller x [] = [(p_seller (snd x), [x])]"
| "pushBySeller x ((sellerId, items) # acc) =
     (if sellerId = p_seller (snd x) then (sellerId, items @ [x]) # acc
      else (sellerId, items) # pushBySeller x acc)"

definition itemsBySeller ::
  "(cart_item \<times> product) list \<Rightarrow> (string \<times> (cart_item \<times> product) list) list" where
  "itemsBySeller items = foldl (\<lambda>acc x. pushBySeller x acc) [] items"

text \<open>The closure run under the product's lock for one item of a sub-order.\<close>

definition deductStock :: "nat \<Rightarrow> cart_item \<times> product \<Rightarrow> db \<Rightarrow> (error + unit) \<times> db" where
  "deductStock subOrderId x d =
     (case x of (item, cartProduct) \<Rightarrow>
      case products d (ci_product item) of
        None \<Rightarrow> (Inl InsufficientStock, d)
      | Some product \<Rightarrow>
         if p_stock product < ci_quantity item then (Inl InsufficientStock, d)
         else
           (case product_decrementIfAvailable (ci_product item) (ci_quantity item) d of
              (count, d1) \<Rightarrow>
                if count = 0 then (Inl InsufficientStock, d1)
                else (Inr (), orderItem_create
                                \<lparr>oi_id = 0, oi_order = subOrderId,
                                 oi_product = ci_product item,
                                 oi_seller = p_seller cartProduct,
                                 oi_quantity = ci_quantity item,
                                 oi_status = PENDING\<rparr> d1)))"

fun createOrderItems ::
  "string \<Rightarrow> nat \<Rightarrow> (cart_item \<times> product) list \<Rightarrow> db \<times> redis \<Rightarrow> (error + unit) \<times> db \<times> redis" where
  "createOrderItems tok subOrderId [] s = (Inr (), s)"
| "createOrderItems tok subOrderId (x # rest) s =
     (case withLock (stockLockKey (ci_product (fst x))) tok (deductStock subOrderId x) s of
        (Inl e, s') \<Rightarrow> (Inl e, s')
      | (Inr u, s') \<Rightarrow> createOrderItems tok subOrderId rest s')"

fun createSubOrders ::
  "string \<Rightarrow> string \<Rightarrow> nat \<Rightarrow> (string \<times> (cart_item \<times> product) list) list \<Rightarrow> db \<times> redis
     \<Rightarrow> (error + unit) \<times> db \<times> redis" where
  "createSubOrders tok userId parentId [] s = (Inr (), s)"
| "createSubOrders tok userId parentId ((sellerId, items) # rest) s =
     (case s of (d, r) \<Rightarrow>
      case order_create
             \<lparr>o_id = 0, o_user = userId, o_parent = Some parentId, o_seller = Some sellerId,
              o_status = PENDING, o_payment = PAYMENT_PENDING, o_is_parent = False\<rparr> d of
        (subOrderId, d1) \<Rightarrow>
          (case createOrderItems tok subOrderId items (d1, r) of
             (Inl e, s') \<Rightarrow> (Inl e, s')
           | (Inr u, s') \<Rightarrow> createSubOrders tok userId parentId rest s'))"

text \<open>The callback of the transaction in \<^verbatim>\<open>createOrder\<close>.\<close>

definition createOrderTx ::
  "string \<Rightarrow> string \<Rightarrow> nat \<Rightarrow> (string \<times> (cart_item \<times> product) list) list \<Rightarrow> db \<times> redis
     \<Rightarrow> (error + nat) \<times> db \<times> redis" where
  "createOrderTx tok userId cart_id groups s =
     (case s of (d, r) \<Rightarrow>
      case order_create
             \<lparr>o_id = 0, o_user = userId, o_parent = None, o_seller = None,
              o_status = PENDING, o_payment = PAYMENT_PENDING, o_is_parent = True\<rparr> d of
        (parentId, d1) \<Rightarrow>
          (case createSubOrders tok userId parentId groups (d1, r) of
             (Inl e, s') \<Rightarrow> (Inl e, s')
           | (Inr u, d2, r2) \<Rightarrow>
              (Inr parentId, cartItem_deleteMany (\<lambda>i. ci_cart i = cart_id) d2, r2)))"

definition createOrder ::
  "string \<Rightarrow> int \<Rightarrow> string \<Rightarrow> string \<Rightarrow> db \<times> redis \<Rightarrow> (error + order_response) \<times> db \<times> redis" where
  "createOrder tok now userId addressId s =
     (case s of (d, r) \<Rightarrow>
      case find (\<lambda>c. c_user c = Some userId) (carts d) of
        None \<Rightarrow> (Inl CartIsEmpty, d, r)
      | Some cart \<Rightarrow>
         if length (filter (\<lambda>i. ci_cart i = c_id cart) (cart_items d)) = 0
         then (Inl CartIsEmpty, d, r)
         else if addresses d addressId \<noteq> Some userId then (Inl AddressNotFound, d, r)
         else
           (let items = loadItems d (c_id cart) in
            case validateItems now (c_id cart) items d of
              Some e \<Rightarrow> (Inl e, d, r)
            | None \<Rightarrow>
               (case transaction (createOrderTx tok userId (c_id cart) (itemsBySeller items)) (d, r) of
                  (Inl e, d', r') \<Rightarrow> (Inl e, d', r')
                | (Inr parentId, d', r') \<Rightarrow> (getOrderById userId parentId d', d', r'))))"

subsection \<open>cancelOrder and cancelSubOrder\<close>

text \<open>The loop that restores the stock of a list of order items, one lock per item.\<close>

fun restoreStock :: "string \<Rightarrow> order_item list \<Rightarrow> db \<times> redis \<Rightarrow> (error + unit) \<times> db \<times> redis" where
  "restoreStock tok [] s = (Inr (), s)"
| "restoreStock tok (item # rest) s =
     (case withLock (stockLockKey (oi_product item)) tok
             (\<lambda>d. case product_increment (oi_product item) (oi_quantity item) d of
                     Inl e \<Rightarrow> (Inl e, d)
                   | Inr d' \<Rightarrow> (Inr (), d')) s of
        (Inl e, s') \<Rightarrow> (Inl e, s')
      | (Inr u, s') \<Rightarrow> restoreStock tok rest s')"

text \<open>
  The loop of \<^verbatim>\<open>cancelOrder\<close> over the sub-orders of a parent order. Each sub-order
  comes with the items that were loaded with it before the transaction.
\<close>

fun cancelSubOrders ::
  "string \<Rightarrow> (order \<times> order_item list) list \<Rightarrow> db \<times> redis \<Rightarrow> (error + unit) \<times> db \<times> redis" where
  "cancelSubOrders tok [] s = (Inr (), s)"
| "cancelSubOrders tok ((subOrder, items) # rest) s =
     (case s of (d, r) \<Rightarrow>
      case order_update (o_id subOrder)
             (\<lambda>od. od\<lparr>o_status := CANCELLED, o_payment := REFUNDED\<rparr>) d of
        Inl e \<Rightarrow> (Inl e, d, r)
      | Inr d1 \<Rightarrow>
         (let d2 = orderItem_updateMany (\<lambda>i. oi_order i = o_id subOrder)
                     (\<lambda>i. i\<lparr>oi_status := CANCELLED\<rparr>) d1
          in case restoreStock tok items (d2, r) of
               (Inl e, s') \<Rightarrow> (Inl e, s')
             | (Inr u, s') \<Rightarrow> cancelSubOrders tok rest s'))"

text \<open>The callback of the transaction in \<^verbatim>\<open>cancelOrder\<close>.\<close>

definition cancelOrderTx ::
  "string \<Rightarrow> nat \<Rightarrow> order \<Rightarrow> order_item list \<Rightarrow> (order \<times> order_item list) list \<Rightarrow> db \<times> redis
     \<Rightarrow> (error + unit) \<times> db \<times> redis" where
  "cancelOrderTx tok orderId order items subs s =
     (case (if o_is_parent order \<and> length subs > 0
            then cancelSubOrders tok subs s
            else (case restoreStock tok items s of
                    (Inl e, s') \<Rightarrow> (Inl e, s')
                  | (Inr u, d', r') \<Rightarrow>
                     (Inr (), orderItem_updateMany (\<lambda>i. oi_order i = orderId)
                                (\<lambda>i. i\<lparr>oi_status := CANCELLED\<rparr>) d', r'))) of
        (Inl e, s') \<Rightarrow> (Inl e, s')
      | (Inr u, d', r') \<Rightarrow>
         (case order_update orderId
                 (\<lambda>od. od\<lparr>o_status := CANCELLED, o_payment := REFUNDED\<rparr>) d' of
            Inl e \<Rightarrow> (Inl e, d', r')
          | Inr d'' \<Rightarrow> (Inr (), d'', r')))"

definition cancelOrder ::
  "string \<Rightarrow> string \<Rightarrow> nat \<Rightarrow> db \<times> redis \<Rightarrow> (error + order_response) \<times> db \<times> redis" where
  "cancelOrder tok userId orderId s =
     (case s of (d, r) \<Rightarrow>
      case find (\<lambda>od. o_id od = orderId \<and> o_user od = userId) (orders d) of
        None \<Rightarrow> (Inl OrderNotFound, d, r)
      | Some order \<Rightarrow>
         if o_status order \<noteq> PENDING then (Inl NotCancellable, d, r)
         else
           (let items = items_of d (o_id order);
                subs = map (\<lambda>subOrder. (subOrder, items_of d (o_id subOrder)))
                         (sub_orders d (o_id order))
            in case transaction (cancelOrderTx tok orderId order items subs) (d, r) of
                 (Inl e, d', r') \<Rightarrow> (Inl e, d', r')
               | (Inr u, d', r') \<Rightarrow> (getOrderById userId orderId d', d', r')))"

text \<open>The callback of the transaction in \<^verbatim>\<open>cancelSubOrder\<close>.\<close>

definition cancelSubOrderTx ::
  "string \<Rightarrow> nat \<Rightarrow> order \<Rightarrow> order_item list \<Rightarrow> db \<times> redis \<Rightarrow> (error + unit) \<times> db \<times> redis" where
  "cancelSubOrderTx tok subOrderId subOrder items s =
     (case s of (d, r) \<Rightarrow>
      case order_update subOrderId
             (\<lambda>od. od\<lparr>o_status := CANCELLED, o_payment := REFUNDED\<rparr>) d of
        Inl e \<Rightarrow> (Inl e, d, r)
      | Inr d1 \<Rightarrow>
         (let d2 = orderItem_updateMany (\<lambda>i. oi_order i = subOrderId)
                     (\<lambda>i. i\<lparr>oi_status := CANCELLED\<rparr>) d1
          in case restoreStock tok items (d2, r) of
               (Inl e, s') \<Rightarrow> (Inl e, s')
             | (Inr u, d3, r3) \<Rightarrow>
                (case o_parent subOrder of
                   None \<Rightarrow> (Inr (), d3, r3)
                 | Some parent_order_id \<Rightarrow>
                    (let allSubOrders = sub_orders d3 parent_order_id;
                         allCancelled =
                           list_all (\<lambda>od. o_id od = subOrderId \<or> o_status od = CANCELLED)
                             allSubOrders
                     in if allCancelled
                        then (case order_update parent_order_id
                                     (\<lambda>od. od\<lparr>o_status := CANCELLED, o_payment := REFUNDED\<rparr>) d3 of
                                Inl e \<Rightarrow> (Inl e, d3, r3)
                              | Inr d4 \<Rightarrow> (Inr (), d4, r3))
                        else (Inr (), d3, r3)))))"

definition cancelSubOrder ::
  "string \<Rightarrow> string \<Rightarrow> nat \<Rightarrow> db \<times> redis \<Rightarrow> (error + order_response) \<times> db \<times> redis" where
  "cancelSubOrder tok sellerId subOrderId s =
     (case s of (d, r) \<Rightarrow>
      case find (\<lambda>od. o_id od = subOrderId \<and> o_seller od = Some sellerId \<and> \<not> o_is_parent od)
             (orders d) of
        None \<Rightarrow> (Inl SubOrderNotFound, d, r)
      | Some subOrder \<Rightarrow>
         if o_status subOrder \<noteq> PENDING \<and> o_status subOrder \<noteq> CONFIRMED
         then (Inl NotCancellable, d, r)
         else
           (let items = items_of d (o_id subOrder) in
            case transaction (cancelSubOrderTx tok subOrderId subOrder items) (d, r) of
              (Inl e, d', r') \<Rightarrow> (Inl e, d', r')
            | (Inr u, d', r') \<Rightarrow>
               (case o_parent subOrder of
                  Some parent_order_id \<Rightarrow>
                    (getOrderById (o_user subOrder) parent_order_id d', d', r')
                | None \<Rightarrow> (getOrderById (o_user subOrder) subOrderId d', d', r'))))"

text \<open>
  A cart item survives the sweep that \<^verbatim>\<open>getCart\<close> runs at \<open>now\<close> when no cart with its
  cart identifier has expired, its reservation has not expired, and no row with its
  identifier belongs to a product whose stock is zero.
\<close>

definition survivesSweep :: "int \<Rightarrow> db \<Rightarrow> cart_item \<Rightarrow> bool" where
  "survivesSweep now d x \<longleftrightarrow>
     (\<forall>c\<in>set (carts d). c_id c = ci_cart x \<longrightarrow> (\<forall>e. c_expires c = Some e \<longrightarrow> now \<le> e))
     \<and> \<not> expiredReservation now x
     \<and> (\<forall>y\<in>set (cart_items d). ci_id y = ci_id x \<longrightarrow>
           (\<forall>p. products d (ci_product y) = Some p \<longrightarrow> p_stock p \<noteq> 0))"

text \<open>
  The (product, quantity) pairs of a list of cart items and of a list of order items, the
  total quantity that such a list asks of one product, and a shift of a stock counter.
\<close>

definition cartDemand :: "(cart_item \<times> product) list \<Rightarrow> (string \<times> int) list" where
  "cartDemand items = map (\<lambda>x. (ci_product (fst x), ci_quantity (fst x))) items"

definition orderDemand :: "order_item list \<Rightarrow> (string \<times> int) list" where
  "orderDemand items = map (\<lambda>i. (oi_product i, oi_quantity i)) items"

definition demand :: "string \<Rightarrow> (string \<times> int) list \<Rightarrow> int" where
  "demand product_id pairs = sum_list (map snd (filter (\<lambda>x. fst x = product_id) pairs))"

definition shiftStock :: "int \<Rightarrow> product \<Rightarrow> product" where
  "shiftStock k p = p\<lparr>p_stock := p_stock p + k\<rparr>"

text \<open>The identifier and owner of every order row, in table order.\<close>

definition orderKeys :: "db \<Rightarrow> (nat \<times> string) list" where
  "orderKeys d = map (\<lambda>od. (o_id od, o_user od)) (orders d)"

text \<open>
  Identifiers drawn from the counter are fresh: every order identifier, every parent
  reference and every order reference of an order item already in the database lies below
  \<open>next_id\<close>.
\<close>

definition freshIds :: "db \<Rightarrow> bool" where
  "freshIds d \<longleftrightarrow>
     (\<forall>od\<in>set (orders d). o_id od < next_id d \<and> (\<forall>p. o_parent od = Some p \<longrightarrow> p < next_id d))
     \<and> (\<forall>i\<in>set (order_items d). oi_order i < next_id d)"

text \<open>
  The core operations as requests, and the state after a sequence of them. A request that
  fails leaves the state its operation returns (the state before the call, after the
  rollback).
\<close>

datatype operation =
    CreateOrder string int string string
  | CancelOrder string string nat
  | CancelSubOrder string string nat
  | AddToCart string int "string option" "string option" string int

fun step :: "operation \<Rightarrow> db \<times> redis \<Rightarrow> db \<times> redis" where
  "step (CreateOrder tok now userId addressId) s = snd (createOrder tok now userId addressId s)"
| "step (CancelOrder tok userId orderId) s = snd (cancelOrder tok userId orderId s)"
| "step (CancelSubOrder tok sellerId subOrderId) s = snd (cancelSubOrder tok sellerId subOrderId s)"
| "step (AddToCart tok now userId sessionId product_id quantity) s =
     snd (addToCartRequest tok now userId sessionId product_id quantity s)"

definition run :: "operation list \<Rightarrow> db \<times> redis \<Rightarrow> db \<times> redis" where
  "run ops s = foldl (\<lambda>s op. step op s) s ops"

text \<open>
  No stock counter is negative, and no quantity held by a cart item or an order item is
  negative.
\<close>

definition stockInvariant :: "db \<Rightarrow> bool" where
  "stockInvariant d \<longleftrightarrow>
     (\<forall>pid p. products d pid = Some p \<longrightarrow> 0 \<le> p_stock p)
     \<and> (\<forall>i\<in>set (cart_items d). 0 \<le> ci_quantity i)
     \<and> (\<forall>i\<in>set (order_items d). 0 \<le> oi_quantity i)"

section \<open>Reference definitions and example states\<close>

text \<open>
  The legal transitions as the specification lists them: PENDING to CONFIRMED or CANCELLED,
  CONFIRMED to SHIPPED, SHIPPED to DELIVERED.
\<close>

definition legalTransitions :: "(OrderStatus \<times> OrderStatus) set" where
  "legalTransitions =
     {(PENDING, CONFIRMED), (PENDING, CANCELLED), (CONFIRMED, SHIPPED), (SHIPPED, DELIVERED)}"

text \<open>An order of user u1 with one sub-order of seller s1 holding one item.\<close>

definition db_order :: "OrderStatus \<Rightarrow> PaymentStatus \<Rightarrow> db" where
  "db_order st pay = \<lparr>
     products = [''p1'' \<mapsto> \<lparr>p_stock = 3, p_seller = ''s1''\<rparr>],
     addresses = [''a1'' \<mapsto> ''u1''],
     carts = [],
     cart_items = [],
     orders = [\<lparr>o_id = 1, o_user = ''u1'', o_parent = None, o_seller = None,
                 o_status = st, o_payment = pay, o_is_parent = True\<rparr>,
               \<lparr>o_id = 2, o_user = ''u1'', o_parent = Some 1, o_seller = Some ''s1'',
                 o_status = st, o_payment = pay, o_is_parent = False\<rparr>],
     order_items = [\<lparr>oi_id = 3, oi_order = 2, oi_product = ''p1'', oi_seller = ''s1'',
                      oi_quantity = 2, oi_status = st\<rparr>],
     next_id = 4\<rparr>"






text \<open>
  The cart of user u1 (cart 1) holds \<open>held\<close> units of product p1, reserved until
  the instant \<open>expires\<close>; the product has \<open>stock\<close> units in stock. \<open>db_start\<close> is the
  same shop before the user has a cart.
\<close>

definition db_cart :: "int \<Rightarrow> int \<Rightarrow> int \<Rightarrow> db" where
  "db_cart stock held expires = \<lparr>
     products = [''p1'' \<mapsto> \<lparr>p_stock = stock, p_seller = ''s1''\<rparr>],
     addresses = [''a1'' \<mapsto> ''u1''],
     carts = [\<lparr>c_id = 1, c_user = Some ''u1'', c_session = None, c_expires = None\<rparr>],
     cart_items = [\<lparr>ci_id = 2, ci_cart = 1, ci_product = ''p1'', ci_quantity = held,
                     ci_expires = Some expires\<rparr>],
     orders = [],
     order_items = [],
     next_id = 3\<rparr>"

definition db_start :: "int \<Rightarrow> db" where
  "db_start stock = \<lparr>
     products = [''p1'' \<mapsto> \<lparr>p_stock = stock, p_seller = ''s1''\<rparr>],
     addresses = [''a1'' \<mapsto> ''u1''],
     carts = [],
     cart_items = [],
     orders = [],
     order_items = [],
     next_id = 1\<rparr>"

text \<open>
  The availability that the specification gives for a repeated add: the authoritative
  stock minus the active reservations of all carts, leaving out the row that the calling
  cart already holds for the product.
\<close>

definition availabilityExcludingOwnRow :: "int \<Rightarrow> nat \<Rightarrow> string \<Rightarrow> db \<Rightarrow> int option" where
  "availabilityExcludingOwnRow now cart_id product_id d =
     map_option
       (\<lambda>p. p_stock p - sum_list (map ci_quantity
                 (filter (\<lambda>i. ci_product i = product_id \<and> ci_cart i \<noteq> cart_id
                               \<and> activeReservation now i) (cart_items d))))
       (products d product_id)"





text \<open>
  The cart of user u1 (cart 1) holds 2 units of p1 (seller s1, stock 3) and 1 unit of p2
  (seller s2, stock 4), both reserved until instant 5000.
\<close>

definition db_two :: db where
  "db_two = \<lparr>
     products = [''p1'' \<mapsto> \<lparr>p_stock = 3, p_seller = ''s1''\<rparr>,
                 ''p2'' \<mapsto> \<lparr>p_stock = 4, p_seller = ''s2''\<rparr>],
     addresses = [''a1'' \<mapsto> ''u1''],
     carts = [\<lparr>c_id = 1, c_user = Some ''u1'', c_session = None, c_expires = None\<rparr>],
     cart_items = [\<lparr>ci_id = 2, ci_cart = 1, ci_product = ''p1'', ci_quantity = 2,
                     ci_expires = Some 5000\<rparr>,
                   \<lparr>ci_id = 3, ci_cart = 1, ci_product = ''p2'', ci_quantity = 1,
                     ci_expires = Some 5000\<rparr>],
     orders = [],
     order_items = [],
     next_id = 4\<rparr>"

text \<open>A lock store in which another process holds the stock lock of p2.\<close>

definition p2_locked :: redis where
  "p2_locked = [''lock:product:p2:stock'' \<mapsto> ''other'']"

text \<open>
  User u1 orders the cart of \<open>db_two\<close>, cancels the order, puts 3 units of p1 in the cart
  and orders again.
\<close>

definition ops_example :: "operation list" where
  "ops_example =
     [CreateOrder ''t'' 1000 ''u1'' ''a1'',
      CancelOrder ''t'' ''u1'' 4,
      AddToCart ''t'' 2000 (Some ''u1'') None ''p1'' 3,
      CreateOrder ''t'' 2000 ''u1'' ''a1'']"

section \<open>Facts about table lookups\<close>

lemma find_SomeP: "find P xs = Some y \<Longrightarrow> P y \<and> y \<in> set xs"
  by (induction xs) (auto split: if_splits)

lemma find_map_key:
  assumes "\<And>x. key (f x) = key x"
  shows "find (\<lambda>x. key x = k') (map (\<lambda>x. if key x = k then f x else x) xs)
       = map_option (\<lambda>x. if key x = k then f x else x) (find (\<lambda>x. key x = k') xs)"
  using assms by (induction xs) auto

lemma find_distinct_key:
  assumes "distinct (map key xs)" "find (\<lambda>x. key x = k \<and> Q x) xs = Some y"
  shows "find (\<lambda>x. key x = k) xs = Some y"
  using assms by (induction xs) (auto split: if_splits simp: image_iff dest!: find_SomeP)


lemma order_findUnique_update:
  assumes "order_update oid f d = Inr d'" "\<And>x. o_id (f x) = o_id x"
  shows "order_findUnique k d'
       = map_option (\<lambda>x. if o_id x = oid then f x else x) (order_findUnique k d)"
  using assms find_map_key[of o_id f k oid "orders d"]
  by (auto simp: order_update_def order_findUnique_def split: if_splits)

lemma order_update_frame:
  "order_update oid f d = Inr d' \<Longrightarrow>
     products d' = products d \<and> order_items d' = order_items d \<and> carts d' = carts d
     \<and> cart_items d' = cart_items d \<and> addresses d' = addresses d \<and> next_id d' = next_id d"
  by (auto simp: order_update_def split: if_splits)

lemma order_update_ids:
  assumes "order_update oid f d = Inr d'" "\<And>x. o_id (f x) = o_id x"
  shows "map o_id (orders d') = map o_id (orders d)"
  using assms by (auto simp: order_update_def split: if_splits)


section \<open>Properties of the lock manager\<close>

text \<open>
  C10. \<^verbatim>\<open>release(key, token)\<close> is idempotent under repetition: after a release that
  returned true, a second release with the same key and token returns false and leaves the
  store as it is (the compare-and-delete finds no matching token and deletes nothing).
\<close>

theorem release_twice:
  "release key token r = (True, r') \<Longrightarrow> release key token r' = (False, r')"
  by (auto simp: release_def Let_def split: if_splits)

theorem release_twice_witness:
  "release ''product:p1:stock'' ''17-0.5'' [''lock:product:p1:stock'' \<mapsto> ''17-0.5'']
     = (True, Map.empty)
   \<and> release ''product:p1:stock'' ''17-0.5'' Map.empty = (False, Map.empty)"
proof -
  have h: "release ''product:p1:stock'' ''17-0.5'' [''lock:product:p1:stock'' \<mapsto> ''17-0.5'']
     = (True, Map.empty)"
    by (simp add: release_def)
  from release_twice [OF h] h show ?thesis by simp
qed

section \<open>Properties of the order status machine\<close>

lemma transitionRejected_iff: "transitionRejected c r \<longleftrightarrow> (c, r) \<notin> legalTransitions"
  by (cases c; cases r) (auto simp: transitionRejected_def legalTransitions_def)

lemma updateStatusTx_error:
  "updateStatusTx itemId status d = (Inl e, d') \<Longrightarrow> e = RecordNotFound"
  by (auto simp: updateStatusTx_def orderItem_update_def order_update_def Let_def
           split: if_splits option.splits sum.splits)

lemma updateStatusTx_ok:
  assumes item: "find (\<lambda>i. oi_id i = itemId) (order_items d) = Some item"
    and sub: "order_findUnique (oi_order item) d = Some so"
    and par: "\<And>p. o_parent so = Some p \<Longrightarrow> order_findUnique p d \<noteq> None"
  shows "\<exists>d'. updateStatusTx itemId status d = (Inr (item\<lparr>oi_status := status\<rparr>), d')
     \<and> products d' = products d
     \<and> map o_id (orders d') = map o_id (orders d)
     \<and> find (\<lambda>i. oi_id i = itemId) (order_items d') = Some (item\<lparr>oi_status := status\<rparr>)
     \<and> map_option o_status (order_findUnique (oi_order item) d') = Some status
     \<and> (\<forall>p. o_parent so = Some p \<longrightarrow> map_option o_status (order_findUnique p d') = Some status)"
proof -
  let ?f = "\<lambda>i. i\<lparr>oi_status := status\<rparr>"
  let ?g = "\<lambda>od. od\<lparr>o_status := status\<rparr>"
  define d1 where
    "d1 = d\<lparr>order_items := map (\<lambda>i. if oi_id i = itemId then ?f i else i) (order_items d)\<rparr>"
  have id: "oi_id item = itemId" using find_SomeP[OF item] by simp
  have u1: "orderItem_update itemId ?f d = Inr d1"
    using item by (simp add: orderItem_update_def d1_def)
  have f1: "find (\<lambda>i. oi_id i = itemId) (order_items d1) = Some (?f item)"
    using find_map_key[of oi_id ?f itemId itemId "order_items d"] item id by (simp add: d1_def)
  have o1: "orders d1 = orders d" "products d1 = products d" by (simp_all add: d1_def)
  have s1: "order_findUnique k d1 = order_findUnique k d" for k
    by (simp add: order_findUnique_def o1)
  obtain d2 where u2: "order_update (oi_order item) ?g d1 = Inr d2"
    using sub by (auto simp: order_update_def s1)
  have s2: "order_findUnique k d2
      = map_option (\<lambda>x. if o_id x = oi_order item then ?g x else x) (order_findUnique k d)" for k
    using order_findUnique_update[OF u2, of k] by (simp add: s1)
  have fr2: "products d2 = products d" "order_items d2 = order_items d1"
    using order_update_frame[OF u2] o1 by simp_all
  have ids2: "map o_id (orders d2) = map o_id (orders d)"
    using order_update_ids[OF u2] o1 by simp
  have st2: "map_option o_status (order_findUnique (oi_order item) d2) = Some status"
  proof -
    have "o_id so = oi_order item"
      using sub find_SomeP[of "\<lambda>od. o_id od = oi_order item" "orders d" so]
      by (simp add: order_findUnique_def)
    then show ?thesis using sub by (simp add: s2)
  qed
  show ?thesis
  proof (cases "o_parent so")
    case None
    then have "updateStatusTx itemId status d = (Inr (?f item), d2)"
      using u1 f1 u2 sub by (simp add: updateStatusTx_def s1)
    then show ?thesis using fr2 f1 st2 None ids2 by simp
  next
    case (Some p)
    then have ex: "order_findUnique p d2 \<noteq> None" using par[OF Some] by (simp add: s2)
    then obtain d3 where u3: "order_update p ?g d2 = Inr d3"
      by (auto simp: order_update_def)
    have s3: "order_findUnique k d3
        = map_option (\<lambda>x. if o_id x = p then ?g x else x) (order_findUnique k d2)" for k
      using order_findUnique_update[OF u3, of k] by simp
    have fr3: "products d3 = products d" "order_items d3 = order_items d1"
      using order_update_frame[OF u3] fr2 by simp_all
    have ids3: "map o_id (orders d3) = map o_id (orders d)"
      using order_update_ids[OF u3] ids2 by simp
    have tx: "updateStatusTx itemId status d = (Inr (?f item), d3)"
      using u1 f1 u2 u3 sub Some by (simp add: updateStatusTx_def s1)
    have a: "map_option o_status (order_findUnique (oi_order item) d3) = Some status"
    proof -
      obtain z where z: "order_findUnique (oi_order item) d2 = Some z" "o_status z = status"
        using st2 by auto
      then show ?thesis by (cases "o_id z = p") (simp_all add: s3)
    qed
    obtain po where po: "order_findUnique p d2 = Some po"
      using ex by auto
    then have "o_id po = p"
      using find_SomeP[of "\<lambda>od. o_id od = p" "orders d2" po] by (simp add: order_findUnique_def)
    then have b: "map_option o_status (order_findUnique p d3) = Some status"
      using po by (simp add: s3)
    show ?thesis using tx fr3 f1 a b Some ids3 by simp
  qed
qed

text \<open>
  C7. For an order item of the seller, \<^verbatim>\<open>updateOrderItemStatus\<close> answers
  InvalidTransition exactly when the pair (current status, requested status) is not one of
  PENDING to CONFIRMED, PENDING to CANCELLED, CONFIRMED to SHIPPED, SHIPPED to DELIVERED;
  a rejected call leaves the whole database as it was; and a listed pair is accepted: when
  the item's sub-order (and the parent it names) exist, the call returns the item with the
  requested status.
\<close>

theorem updateOrderItemStatus_transitions:
  assumes "find (\<lambda>i. oi_id i = itemId \<and> oi_seller i = sellerId) (order_items d) = Some item"
  shows "(fst (updateOrderItemStatus sellerId itemId status d) = Inl InvalidTransition
            \<longleftrightarrow> (oi_status item, status) \<notin> legalTransitions)
       \<and> ((oi_status item, status) \<notin> legalTransitions \<longrightarrow>
            updateOrderItemStatus sellerId itemId status d = (Inl InvalidTransition, d))
       \<and> ((oi_status item, status) \<in> legalTransitions \<and> distinct (map oi_id (order_items d))
            \<and> (\<exists>so. order_findUnique (oi_order item) d = Some so
                 \<and> (\<forall>p. o_parent so = Some p \<longrightarrow> order_findUnique p d \<noteq> None)) \<longrightarrow>
            (\<exists>d'. updateOrderItemStatus sellerId itemId status d
                    = (Inr (item\<lparr>oi_status := status\<rparr>), d')))"
proof (intro conjI impI)
  show "(fst (updateOrderItemStatus sellerId itemId status d) = Inl InvalidTransition)
          = ((oi_status item, status) \<notin> legalTransitions)"
    using assms
    by (auto simp: updateOrderItemStatus_def transitionRejected_iff transaction_db_def
             split: prod.splits sum.splits dest: updateStatusTx_error)
next
  assume "(oi_status item, status) \<notin> legalTransitions"
  then show "updateOrderItemStatus sellerId itemId status d = (Inl InvalidTransition, d)"
    using assms by (simp add: updateOrderItemStatus_def transitionRejected_iff)
next
  assume a: "(oi_status item, status) \<in> legalTransitions \<and> distinct (map oi_id (order_items d))
            \<and> (\<exists>so. order_findUnique (oi_order item) d = Some so
                 \<and> (\<forall>p. o_parent so = Some p \<longrightarrow> order_findUnique p d \<noteq> None))"
  then obtain so where so: "order_findUnique (oi_order item) d = Some so"
      "\<And>p. o_parent so = Some p \<Longrightarrow> order_findUnique p d \<noteq> None" by blast
  have item: "find (\<lambda>i. oi_id i = itemId) (order_items d) = Some item"
    using find_distinct_key[of oi_id "order_items d" itemId "\<lambda>i. oi_seller i = sellerId" item] a assms
    by simp
  from updateStatusTx_ok[OF item so(1) so(2), of status]
  obtain d' where "updateStatusTx itemId status d = (Inr (item\<lparr>oi_status := status\<rparr>), d')"
    by blast
  then show "\<exists>d'. updateOrderItemStatus sellerId itemId status d
                    = (Inr (item\<lparr>oi_status := status\<rparr>), d')"
    using assms a by (simp add: updateOrderItemStatus_def transitionRejected_iff transaction_db_def)
qed

theorem updateOrderItemStatus_transitions_witness:
  "updateOrderItemStatus ''s1'' 3 PENDING (db_order SHIPPED PAID)
      = (Inl InvalidTransition, db_order SHIPPED PAID)
   \<and> (\<exists>d'. updateOrderItemStatus ''s1'' 3 DELIVERED (db_order SHIPPED PAID)
            = (Inr \<lparr>oi_id = 3, oi_order = 2, oi_product = ''p1'', oi_seller = ''s1'',
                    oi_quantity = 2, oi_status = DELIVERED\<rparr>, d'))"
proof -
  let ?item = "\<lparr>oi_id = 3, oi_order = 2, oi_product = ''p1'', oi_seller = ''s1'',
                 oi_quantity = 2, oi_status = SHIPPED\<rparr>"
  have f: "find (\<lambda>i. oi_id i = 3 \<and> oi_seller i = ''s1'') (order_items (db_order SHIPPED PAID))
             = Some ?item"
    by (simp add: db_order_def)
  have r: "(oi_status ?item, PENDING) \<notin> legalTransitions"
    by (simp add: legalTransitions_def)
  have a: "(oi_status ?item, DELIVERED) \<in> legalTransitions
          \<and> distinct (map oi_id (order_items (db_order SHIPPED PAID)))
          \<and> (\<exists>so. order_findUnique (oi_order ?item) (db_order SHIPPED PAID) = Some so
               \<and> (\<forall>p. o_parent so = Some p \<longrightarrow> order_findUnique p (db_order SHIPPED PAID) \<noteq> None))"
    by (simp add: legalTransitions_def db_order_def order_findUnique_def)
  from updateOrderItemStatus_transitions[OF f, of PENDING] r
       updateOrderItemStatus_transitions[OF f, of DELIVERED] a
  show ?thesis by simp
qed







section \<open>Properties of the payment service\<close>

text \<open>
  C8. When the gateway declines the payment of an order that is not already paid,
  \<^verbatim>\<open>processPayment\<close> answers FAILED, the order's payment status becomes FAILED, its status
  is what it was (a PENDING order stays PENDING), every other order row and every order item
  is untouched, and the product table, and with it every stock counter, is unchanged.
\<close>

theorem payment_failure_keeps_stock:
  assumes "order_findUnique order_id d = Some order"
    and "o_payment order \<noteq> PAID"
    and "\<not> simulatePaymentGateway payment_method card_number rnd"
  shows "\<exists>d'. processPayment order_id payment_method card_number rnd d
                = (Inr \<lparr>pr_success = False, pr_status = FAILED\<rparr>, d')
     \<and> order_findUnique order_id d' = Some (order\<lparr>o_payment := FAILED\<rparr>)
     \<and> orders d' = map (\<lambda>od. if o_id od = order_id then od\<lparr>o_payment := FAILED\<rparr> else od) (orders d)
     \<and> order_items d' = order_items d
     \<and> products d' = products d"
proof -
  let ?p = "\<lambda>od. od\<lparr>o_payment := PROCESSING\<rparr>"
  let ?f = "\<lambda>od. od\<lparr>o_payment := FAILED\<rparr>"
  have oid: "o_id order = order_id"
    using find_SomeP[of "\<lambda>od. o_id od = order_id" "orders d" order] assms(1)
    by (simp add: order_findUnique_def)
  obtain d1 where u1: "order_update order_id ?p d = Inr d1"
    using assms(1) by (auto simp: order_update_def)
  have f1: "order_findUnique order_id d1 = Some (?p order)"
    using order_findUnique_update[OF u1, of order_id] assms(1) oid by simp
  obtain d2 where u2: "order_update order_id ?f d1 = Inr d2"
    using f1 by (auto simp: order_update_def)
  have f2: "order_findUnique order_id d2 = Some (?f order)"
    using order_findUnique_update[OF u2, of order_id] f1 oid by simp
  have o2: "orders d2 = map (\<lambda>od. if o_id od = order_id then ?f od else od) (orders d)"
    using u1 u2 by (auto simp: order_update_def split: if_splits)
  have fr: "order_items d2 = order_items d" "products d2 = products d"
    using order_update_frame[OF u1] order_update_frame[OF u2] by simp_all
  have "processPayment order_id payment_method card_number rnd d
          = (Inr \<lparr>pr_success = False, pr_status = FAILED\<rparr>, d2)"
    using assms u1 u2 by (simp add: processPayment_def)
  then show ?thesis using f2 o2 fr by simp
qed

theorem payment_failure_keeps_stock_witness:
  "\<exists>d'. processPayment 1 CREDIT_CARD (Some ''4000000000000002'') 0.5 (db_order PENDING PAYMENT_PENDING)
           = (Inr \<lparr>pr_success = False, pr_status = FAILED\<rparr>, d')
      \<and> order_findUnique 1 d'
           = Some \<lparr>o_id = 1, o_user = ''u1'', o_parent = None, o_seller = None,
                   o_status = PENDING, o_payment = FAILED, o_is_parent = True\<rparr>
      \<and> products d' = products (db_order PENDING PAYMENT_PENDING)"
proof -
  let ?d = "db_order PENDING PAYMENT_PENDING"
  let ?po = "\<lparr>o_id = 1, o_user = ''u1'', o_parent = None, o_seller = None,
               o_status = PENDING, o_payment = PAYMENT_PENDING, o_is_parent = True\<rparr>"
  have h1: "order_findUnique 1 ?d = Some ?po"
    by (simp add: db_order_def order_findUnique_def)
  have h2: "o_payment ?po \<noteq> PAID" by simp
  have h3: "\<not> simulatePaymentGateway CREDIT_CARD (Some ''4000000000000002'') 0.5"
    by (simp add: simulatePaymentGateway_def)
  from payment_failure_keeps_stock[OF h1 h2 h3]
  show ?thesis by auto
qed

section \<open>Facts about locks and the cart sweep\<close>

lemma withLock_free:
  assumes "r (''lock:'' @ key) = None"
  shows "withLock key tok fn (s, r) = (case fn s of (res, s') \<Rightarrow> (res, s', r))"
proof -
  have "(r(''lock:'' @ key \<mapsto> tok))(''lock:'' @ key := None) = r"
    using assms by (auto simp: fun_eq_iff)
  then show ?thesis
    using assms by (simp add: withLock_def acquire_def release_def split: prod.splits)
qed

lemma withLock_held:
  assumes "r (''lock:'' @ key) \<noteq> None"
  shows "withLock key tok fn (s, r) = (Inl LockTimeout, s, r)"
  using assms by (auto simp: withLock_def acquire_def)

lemma getCart_sweep:
  assumes "truthy u \<or> truthy s"
  shows "\<exists>resp d' K. getCart now u s d = (Inr resp, d') \<and> products d' = products d
           \<and> cart_items d' = filter K (cart_items d)
           \<and> (\<forall>x. survivesSweep now d x \<longrightarrow> K x)
           \<and> set (carts d') \<subseteq> set (carts d) \<and> order_items d' = order_items d"
proof -
  define E :: "cart \<Rightarrow> bool" where "E = (\<lambda>c. case c_expires c of None \<Rightarrow> False | Some e \<Rightarrow> e < now)"
  define d1 where "d1 = cart_deleteMany E d"
  define A :: "cart_item \<Rightarrow> bool" where "A = (\<lambda>i. ci_cart i \<notin> set (map c_id (filter E (carts d))))"
  have ci1: "cart_items d1 = filter A (cart_items d)" and p1: "products d1 = products d"
    and c1: "set (carts d1) \<subseteq> set (carts d)" and oi1: "order_items d1 = order_items d"
    by (simp_all add: d1_def cart_deleteMany_def A_def)
  have KA: "survivesSweep now d x \<Longrightarrow> A x" for x
    by (auto simp: survivesSweep_def A_def E_def split: option.splits)
  define cartOpt where "cartOpt = (if truthy u
                     then find_latest (\<lambda>c. c_user c = u) (carts d1)
                     else find_latest (\<lambda>c. c_session c = s \<and> c_user c = None) (carts d1))"
  show ?thesis
  proof (cases cartOpt)
    case None
    then have "getCart now u s d = (Inr \<lparr>cr_id = None, cr_total_items = 0, cr_items = []\<rparr>, d1)"
      using assms unfolding getCart_def Let_def cartOpt_def d1_def E_def by auto
    then show ?thesis using ci1 p1 KA c1 oi1 by blast
  next
    case (Some cart)
    define rem where "rem = filter (\<lambda>i::cart_item. case products d1 (ci_product i) of
                                     None \<Rightarrow> False
                                   | Some p \<Rightarrow> p_stock p = 0) (filter (\<lambda>i. ci_cart i = c_id cart) (cart_items d1))"
    define B :: "cart_item \<Rightarrow> bool" where "B = (\<lambda>i. ci_id i \<notin> set (map ci_id rem))"
    define d2 where "d2 = (if length rem > 0
                          then cartItem_deleteMany (\<lambda>i. ci_id i \<in> set (map ci_id rem)) d1
                          else d1)"
    define C :: "cart_item \<Rightarrow> bool" where "C = (\<lambda>i. \<not> (ci_cart i = c_id cart \<and> expiredReservation now i))"
    define d3 where "d3 = cartItem_deleteMany (\<lambda>i. ci_cart i = c_id cart \<and> expiredReservation now i) d2"
    have ci2: "cart_items d2 = filter B (cart_items d1)" and p2: "products d2 = products d"
      and c2: "carts d2 = carts d1" and oi2: "order_items d2 = order_items d"
      by (auto simp: d2_def cartItem_deleteMany_def B_def p1 oi1)
    have ci3: "cart_items d3 = filter (\<lambda>x. A x \<and> B x \<and> C x) (cart_items d)"
      and p3: "products d3 = products d" and c3: "set (carts d3) \<subseteq> set (carts d)"
      and oi3: "order_items d3 = order_items d"
      using c1 by (auto simp: d3_def cartItem_deleteMany_def ci2 ci1 C_def p2 c2 oi2 intro: filter_cong)
    have KB: "survivesSweep now d x \<Longrightarrow> B x" for x
      by (auto simp: survivesSweep_def B_def rem_def ci1 p1 split: option.splits)
    have KC: "survivesSweep now d x \<Longrightarrow> C x" for x
      by (auto simp: survivesSweep_def C_def)
    have "\<exists>resp. getCart now u s d = (Inr resp, d3)"
      using assms Some unfolding getCart_def Let_def cartOpt_def[symmetric, unfolded d1_def E_def]
        d3_def d2_def rem_def d1_def E_def
      by (auto split: option.splits)
    then show ?thesis using ci3 p3 KA KB KC c3 oi3 by blast
  qed
qed

lemma getCart_shrinks:
  assumes "getCart now u s d = (res, d')"
  shows "set (carts d') \<subseteq> set (carts d) \<and> set (cart_items d') \<subseteq> set (cart_items d)
          \<and> products d' = products d \<and> order_items d' = order_items d"
proof (cases "truthy u \<or> truthy s")
  case True
  from getCart_sweep[OF True, of now d] assms show ?thesis by auto
next
  case False
  then show ?thesis using assms by (simp add: getCart_def)
qed

lemma cartItem_findUnique_mem:
  assumes "cartItem_findUnique c p d = Some ex"
  shows "ex \<in> set (cart_items d)" "ci_cart ex = c" "ci_product ex = p"
    "find (\<lambda>i. ci_id i = ci_id ex) (cart_items d) \<noteq> None"
proof -
  show a: "ex \<in> set (cart_items d)" "ci_cart ex = c" "ci_product ex = p"
    using find_SomeP[of "\<lambda>i. ci_cart i = c \<and> ci_product i = p" "cart_items d" ex] assms
    by (simp_all add: cartItem_findUnique_def)
  then show "find (\<lambda>i. ci_id i = ci_id ex) (cart_items d) \<noteq> None"
    by (auto simp: find_None_iff)
qed


lemma find_map_pres:
  assumes "\<And>x. P (g x) = P x"
  shows "find P (map g xs) = map_option g (find P xs)"
  using assms by (induction xs) auto

lemma find_filter_keep:
  "find P xs = Some y \<Longrightarrow> K y \<Longrightarrow> find P (filter K xs) = Some y"
  by (induction xs) (auto split: if_splits)

lemma sum_filter_mono:
  fixes f :: "'a \<Rightarrow> int"
  assumes "\<forall>x\<in>set xs. 0 \<le> f x" "\<And>x. P x \<Longrightarrow> Q x"
  shows "sum_list (map f (filter P xs)) \<le> sum_list (map f (filter Q xs))"
  using assms by (induction xs) (auto simp: add_increasing)

lemma sum_filter_nonneg:
  fixes f :: "'a \<Rightarrow> int"
  assumes "\<forall>x\<in>set xs. 0 \<le> f x"
  shows "0 \<le> sum_list (map f (filter P xs))"
  using assms by (induction xs) auto

lemma reservedQuantity_le_all:
  assumes "\<forall>i\<in>set (cart_items d). 0 \<le> ci_quantity i"
  shows "reservedQuantity P now pid d \<le> reservedQuantity (\<lambda>i. True) now pid d"
  unfolding reservedQuantity_def using assms by (intro sum_filter_mono) auto

lemma reservedQuantity_nonneg:
  assumes "\<forall>i\<in>set (cart_items d). 0 \<le> ci_quantity i"
  shows "0 \<le> reservedQuantity P now pid d"
  unfolding reservedQuantity_def using assms by (intro sum_filter_nonneg) auto



lemma loadItems_rows:
  "x \<in> set (loadItems d cid) \<Longrightarrow> fst x \<in> set (cart_items d) \<and> ci_cart (fst x) = cid
      \<and> products d (ci_product (fst x)) = Some (snd x)"
  by (auto simp: loadItems_def List.map_filter_def)








section \<open>Properties of the cart service\<close>

text \<open>
  C4, evaluated on the code. The cart of user u1 reserves 5 units of product p1, whose
  stock is 5, and no other cart reserves any. The availability that leaves out the cart's
  own row is 5, which covers a repeated add of 5; \<^verbatim>\<open>addToCart\<close> nevertheless answers
  InsufficientStock, because its first check subtracts every active reservation, the
  caller's own row included, and throws before the existing row is looked up.
\<close>

theorem addToCart_readd_own_reservation:
  "availabilityExcludingOwnRow 1000 1 ''p1'' (db_cart 5 5 2000) = Some 5
   \<and> map_option ci_quantity (cartItem_findUnique 1 ''p1'' (db_cart 5 5 2000)) = Some 5
   \<and> addToCart ''t'' 1000 (Some ''u1'') None ''p1'' 5 (db_cart 5 5 2000, Map.empty)
       = (Inl InsufficientStock, db_cart 5 5 2000, Map.empty)"
  by (simp add: addToCart_def withLock_def acquire_def release_def stockLockKey_def truthy_def
        addToCartLocked_def db_cart_def reservedQuantity_def activeReservation_def
        availabilityExcludingOwnRow_def cartItem_findUnique_def)

text \<open>
  What a repeated add does when the first check of \<^verbatim>\<open>addToCart\<close> passes. In any state in
  which the caller's cart has not expired and already holds a row for the product (the
  state a first add leaves behind), an add of a positive \<open>quantity\<close> that is covered by the
  stock minus every active reservation of the product, the caller's own row included,
  succeeds, and afterwards the row of (cart, product) carries exactly \<open>quantity\<close>, whatever
  it carried before, and the expiry \<open>now + 15 min\<close>. The hypotheses on the tables are the
  primary keys (distinct identifiers) and non-negative stored quantities.
\<close>

lemma addToCart_repeat_all_rows_fit:
  assumes dc: "distinct (map c_id (carts d))"
    and di: "distinct (map ci_id (cart_items d))"
    and nn: "\<forall>i\<in>set (cart_items d). 0 \<le> ci_quantity i"
    and q: "0 < quantity"
    and free: "r (''lock:'' @ stockLockKey product_id) = None"
    and prod: "products d product_id = Some product"
    and avail: "quantity \<le> p_stock product - reservedQuantity (\<lambda>i. True) now product_id d"
    and cart: "findCart userId sessionId d = Some cart"
    and live: "\<forall>e. c_expires cart = Some e \<longrightarrow> now \<le> e"
    and row: "cartItem_findUnique (c_id cart) product_id d = Some existing"
  shows "\<exists>resp d'. addToCart tok now userId sessionId product_id quantity (d, r) = (Inr resp, d', r)
      \<and> cartItem_findUnique (c_id cart) product_id d'
          = Some (existing\<lparr>ci_quantity := quantity,
                            ci_expires := Some (now + RESERVATION_TTL_MINUTES * 60 * 1000)\<rparr>)"
proof -
  let ?f = "\<lambda>i. i\<lparr>ci_quantity := quantity,
                   ci_expires := Some (now + RESERVATION_TTL_MINUTES * 60 * 1000)\<rparr>"
  let ?g = "\<lambda>i. if ci_id i = ci_id existing then ?f i else i"
  let ?P = "\<lambda>i. ci_cart i = c_id cart \<and> ci_product i = product_id"
  define d1 where "d1 = d\<lparr>cart_items := map ?g (cart_items d)\<rparr>"
  have tr: "truthy userId \<or> truthy sessionId"
    using cart by (auto simp: findCart_def split: if_splits)
  have rc: "resolveCart now userId sessionId d = (Inr cart, d)"
    using cart by (simp add: resolveCart_def)
  have ex: "?P existing" "existing \<in> set (cart_items d)"
    using find_SomeP[of ?P "cart_items d" existing] row by (simp_all add: cartItem_findUnique_def)
  have cin: "cart \<in> set (carts d)"
    using cart by (auto simp: findCart_def split: if_splits dest: find_SomeP)
  have byId: "find (\<lambda>i. ci_id i = ci_id existing) (cart_items d) \<noteq> None"
    using ex(2) by (auto simp: find_None_iff)
  have upd: "cartItem_update (ci_id existing) ?f d = Inr d1"
    using byId by (simp add: cartItem_update_def d1_def)
  have other: "reservedQuantity (\<lambda>i. ci_id i \<noteq> ci_id existing) now product_id d
                 \<le> reservedQuantity (\<lambda>i. True) now product_id d"
    by (rule reservedQuantity_le_all[OF nn])
  have stock: "0 < p_stock product"
    using avail q reservedQuantity_nonneg[OF nn, of "\<lambda>i. True" now product_id] by linarith
  have f1: "cartItem_findUnique (c_id cart) product_id d1 = Some (?f existing)"
  proof -
    have "find ?P (map ?g (cart_items d)) = map_option ?g (find ?P (cart_items d))"
      by (rule find_map_pres) simp
    then show ?thesis using row by (simp add: cartItem_findUnique_def d1_def)
  qed
  have surv: "survivesSweep now d1 (?f existing)"
    unfolding survivesSweep_def
  proof (intro conjI ballI impI allI)
    fix c e assume c: "c \<in> set (carts d1)" "c_id c = ci_cart (?f existing)" "c_expires c = Some e"
    then have "c \<in> set (carts d)" "c_id c = c_id cart" using ex(1) by (simp_all add: d1_def)
    then have "c = cart" using dc cin by (metis distinct_map inj_on_def)
    then show "now \<le> e" using live c(3) by simp
  next
    show "\<not> expiredReservation now (?f existing)"
      by (simp add: expiredReservation_def RESERVATION_TTL_MINUTES_def)
  next
    fix y p assume y: "y \<in> set (cart_items d1)" "ci_id y = ci_id (?f existing)"
      "products d1 (ci_product y) = Some p"
    then obtain y0 where y0: "y0 \<in> set (cart_items d)" "y = ?g y0" by (auto simp: d1_def)
    then have "ci_id y0 = ci_id existing" using y(2) by (auto split: if_splits)
    then have "y0 = existing" using di y0(1) ex(2) by (metis distinct_map inj_on_def)
    then have "ci_product y = product_id" using y0(2) ex(1) by simp
    then have "p = product" using y(3) prod by (simp add: d1_def)
    then show "p_stock p \<noteq> 0" using stock by simp
  qed
  from getCart_sweep[OF tr, of now d1]
  obtain resp d' K where g: "getCart now userId sessionId d1 = (Inr resp, d')"
    and ci: "cart_items d' = filter K (cart_items d1)"
    and K: "\<forall>x. survivesSweep now d1 x \<longrightarrow> K x" by blast
  have fin: "cartItem_findUnique (c_id cart) product_id d' = Some (?f existing)"
    using find_filter_keep[of ?P "cart_items d1" "?f existing" K] f1 K surv
    by (simp add: cartItem_findUnique_def ci)
  have locked: "addToCartLocked now userId sessionId product_id quantity d = (Inr resp, d')"
    using prod avail rc row other upd g
    by (simp add: addToCartLocked_def Let_def)
  have "addToCart tok now userId sessionId product_id quantity (d, r) = (Inr resp, d', r)"
    using tr locked withLock_free[of r "stockLockKey product_id" tok "addToCartLocked now userId sessionId product_id quantity" d] free
    by (auto simp: addToCart_def)
  then show ?thesis using fin by blast
qed

lemma addToCart_repeat_all_rows_fit_example:
  "addToCart ''t1'' 0 (Some ''u1'') None ''p1'' 5 (db_start 10, Map.empty)
     = (Inr \<lparr>cr_id = Some 1, cr_total_items = 5,
             cr_items = [\<lparr>ci_id = 2, ci_cart = 1, ci_product = ''p1'', ci_quantity = 5,
                          ci_expires = Some 900000\<rparr>]\<rparr>,
        db_cart 10 5 900000, Map.empty)
   \<and> (\<exists>resp d'. addToCart ''t2'' 60000 (Some ''u1'') None ''p1'' 5 (db_cart 10 5 900000, Map.empty)
                    = (Inr resp, d', Map.empty)
          \<and> cartItem_findUnique 1 ''p1'' d'
              = Some \<lparr>ci_id = 2, ci_cart = 1, ci_product = ''p1'', ci_quantity = 5,
                      ci_expires = Some 960000\<rparr>)"
proof -
  let ?d = "db_cart 10 5 900000"
  let ?cart = "\<lparr>c_id = 1, c_user = Some ''u1'', c_session = None, c_expires = None\<rparr>"
  let ?row = "\<lparr>ci_id = 2, ci_cart = 1, ci_product = ''p1'', ci_quantity = 5,
                ci_expires = Some 900000\<rparr>"
  have first: "addToCart ''t1'' 0 (Some ''u1'') None ''p1'' 5 (db_start 10, Map.empty)
     = (Inr \<lparr>cr_id = Some 1, cr_total_items = 5, cr_items = [?row]\<rparr>, ?d, Map.empty)"
    by (simp add: addToCart_def withLock_def acquire_def release_def stockLockKey_def truthy_def
          addToCartLocked_def db_cart_def db_start_def reservedQuantity_def activeReservation_def
          resolveCart_def findCart_def cart_create_def cartItem_findUnique_def cartItem_create_def
          getCart_def cart_deleteMany_def find_latest_def cartItem_deleteMany_def
          expiredReservation_def RESERVATION_TTL_MINUTES_def Let_def
          numeral_2_eq_2 numeral_3_eq_3)
  have h1: "distinct (map c_id (carts ?d))" by (simp add: db_cart_def)
  have h2: "distinct (map ci_id (cart_items ?d))" by (simp add: db_cart_def)
  have h3: "\<forall>i\<in>set (cart_items ?d). 0 \<le> ci_quantity i" by (simp add: db_cart_def)
  have h4: "0 < (5::int)" by simp
  have h5: "Map.empty (''lock:'' @ stockLockKey ''p1'') = None" by simp
  have h6: "products ?d ''p1'' = Some \<lparr>p_stock = 10, p_seller = ''s1''\<rparr>"
    by (simp add: db_cart_def)
  have h7: "5 \<le> p_stock \<lparr>p_stock = 10, p_seller = ''s1''\<rparr>
                 - reservedQuantity (\<lambda>i. True) 60000 ''p1'' ?d"
    by (simp add: db_cart_def reservedQuantity_def activeReservation_def)
  have h8: "findCart (Some ''u1'') None ?d = Some ?cart"
    by (simp add: findCart_def truthy_def db_cart_def)
  have h9: "\<forall>e. c_expires ?cart = Some e \<longrightarrow> 60000 \<le> e" by simp
  have h10: "cartItem_findUnique (c_id ?cart) ''p1'' ?d = Some ?row"
    by (simp add: cartItem_findUnique_def db_cart_def)
  from addToCart_repeat_all_rows_fit[OF h1 h2 h3 h4 h5 h6 h7 h8 h9 h10, of "''t2''"]
  have "\<exists>resp d'. addToCart ''t2'' 60000 (Some ''u1'') None ''p1'' 5 (?d, Map.empty)
                    = (Inr resp, d', Map.empty)
          \<and> cartItem_findUnique 1 ''p1'' d'
              = Some \<lparr>ci_id = 2, ci_cart = 1, ci_product = ''p1'', ci_quantity = 5,
                      ci_expires = Some 960000\<rparr>"
    by (simp add: RESERVATION_TTL_MINUTES_def)
  with first show ?thesis by blast
qed

text \<open>
  C6, evaluated on the code. Product p1 has 5 units in stock and user u1 has no cart. The
  first add of 5 units succeeds and leaves the row with quantity 5 and the expiry 900000.
  For the second add of the same 5 units, one minute later, the availability that leaves
  out the cart's own row is 5, which covers the request; \<^verbatim>\<open>addToCart\<close> nevertheless
  answers InsufficientStock, because its first check subtracts the caller's own row, and
  the database is what the first add left: the quantity is not replaced and the expiry is
  still 900000, not 960000.
\<close>

theorem addToCart_repeat_rejected:
  "addToCart ''t1'' 0 (Some ''u1'') None ''p1'' 5 (db_start 5, Map.empty)
     = (Inr \<lparr>cr_id = Some 1, cr_total_items = 5,
             cr_items = [\<lparr>ci_id = 2, ci_cart = 1, ci_product = ''p1'', ci_quantity = 5,
                          ci_expires = Some 900000\<rparr>]\<rparr>,
        db_cart 5 5 900000, Map.empty)
   \<and> availabilityExcludingOwnRow 60000 1 ''p1'' (db_cart 5 5 900000) = Some 5
   \<and> addToCart ''t2'' 60000 (Some ''u1'') None ''p1'' 5 (db_cart 5 5 900000, Map.empty)
       = (Inl InsufficientStock, db_cart 5 5 900000, Map.empty)"
  by (simp add: addToCart_def withLock_def acquire_def release_def stockLockKey_def truthy_def
        addToCartLocked_def db_cart_def db_start_def reservedQuantity_def activeReservation_def
        resolveCart_def findCart_def cart_create_def cartItem_findUnique_def cartItem_create_def
        getCart_def cart_deleteMany_def find_latest_def cartItem_deleteMany_def
        expiredReservation_def RESERVATION_TTL_MINUTES_def Let_def
        availabilityExcludingOwnRow_def numeral_2_eq_2 numeral_3_eq_3)



section \<open>Facts about the order service\<close>

lemma withLock_result:
  assumes "withLock key tok fn (s, r) = (res, s', r')"
  shows "r' = r"
    and "r (''lock:'' @ key) \<noteq> None \<Longrightarrow> res = Inl LockTimeout \<and> s' = s"
    and "r (''lock:'' @ key) = None \<Longrightarrow> fn s = (res, s')"
proof -
  show "r' = r"
  proof (cases "r (''lock:'' @ key) = None")
    case True
    then show ?thesis using assms withLock_free[of r key tok fn s] by (auto split: prod.splits)
  next
    case False
    then show ?thesis using assms withLock_held[of r key tok fn s] by auto
  qed
  show "r (''lock:'' @ key) \<noteq> None \<Longrightarrow> res = Inl LockTimeout \<and> s' = s"
    using assms withLock_held[of r key tok fn s] by auto
  show "r (''lock:'' @ key) = None \<Longrightarrow> fn s = (res, s')"
    using assms withLock_free[of r key tok fn s] by (auto split: prod.splits)
qed

lemma withLock_Inr:
  assumes "withLock key tok fn (s, r) = (Inr v, s', r')"
  shows "r' = r \<and> r (''lock:'' @ key) = None \<and> fn s = (Inr v, s')"
  using withLock_result[OF assms] by (cases "r (''lock:'' @ key) = None") auto

lemma shiftStock_simps [simp]:
  "shiftStock 0 p = p" "shiftStock a (shiftStock b p) = shiftStock (a + b) p"
  "p_stock (shiftStock k p) = p_stock p + k" "p_seller (shiftStock k p) = p_seller p"
  by (simp_all add: shiftStock_def)

lemma demand_simps [simp]:
  "demand pid [] = 0"
  "demand pid ((p, q) # xs) = (if p = pid then q else 0) + demand pid xs"
  "demand pid (xs @ ys) = demand pid xs + demand pid ys"
  by (simp_all add: demand_def)

lemma deductStock_Inr:
  assumes "deductStock sid x d = (Inr u, d')"
  shows "\<exists>p. products d (ci_product (fst x)) = Some p \<and> ci_quantity (fst x) \<le> p_stock p
     \<and> products d' = (products d)(ci_product (fst x) \<mapsto> shiftStock (- ci_quantity (fst x)) p)
     \<and> order_items d' = order_items d @
          [\<lparr>oi_id = next_id d, oi_order = sid, oi_product = ci_product (fst x),
            oi_seller = p_seller (snd x), oi_quantity = ci_quantity (fst x),
            oi_status = PENDING\<rparr>]
     \<and> orders d' = orders d \<and> carts d' = carts d \<and> cart_items d' = cart_items d
     \<and> addresses d' = addresses d \<and> next_id d' = Suc (next_id d)"
  using assms
  by (cases x)
     (auto simp: deductStock_def product_decrementIfAvailable_def orderItem_create_def
        shiftStock_def split: option.splits if_splits)

lemma deductStock_Inl:
  assumes "deductStock sid x d = (Inl e, d')"
  shows "d' = d"
  using assms
  by (cases x)
     (auto simp: deductStock_def product_decrementIfAvailable_def orderItem_create_def
        split: option.splits if_splits)

lemma createOrderItems_Inr:
  assumes "createOrderItems tok sid items (d, r) = (Inr u, d', r')"
  shows "r' = r
     \<and> (\<forall>x\<in>set items. r (''lock:'' @ stockLockKey (ci_product (fst x))) = None)
     \<and> (\<forall>pid. products d' pid = map_option (shiftStock (- demand pid (cartDemand items))) (products d pid))
     \<and> (\<exists>new. order_items d' = order_items d @ new \<and> (\<forall>i\<in>set new. oi_order i = sid)
           \<and> orderDemand new = cartDemand items)
     \<and> orders d' = orders d \<and> carts d' = carts d \<and> cart_items d' = cart_items d
     \<and> addresses d' = addresses d \<and> next_id d \<le> next_id d'"
  using assms
proof (induction items arbitrary: d)
  case Nil
  then show ?case by (simp add: cartDemand_def orderDemand_def option.map_ident)
next
  case (Cons x rest)
  let ?key = "stockLockKey (ci_product (fst x))"
  obtain res1 d1 r1 where w: "withLock ?key tok (deductStock sid x) (d, r) = (res1, d1, r1)"
    by (metis prod_cases3)
  then obtain u1 where res1: "res1 = Inr u1" and rest: "createOrderItems tok sid rest (d1, r1) = (Inr u, d', r')"
    using Cons.prems by (cases res1) auto
  from withLock_Inr[OF w[unfolded res1]]
  have r1: "r1 = r" and free: "r (''lock:'' @ ?key) = None" and ded: "deductStock sid x d = (Inr u1, d1)"
    by simp_all
  from deductStock_Inr[OF ded] obtain p where p: "products d (ci_product (fst x)) = Some p"
    "ci_quantity (fst x) \<le> p_stock p"
    "products d1 = (products d)(ci_product (fst x) \<mapsto> shiftStock (- ci_quantity (fst x)) p)"
    "order_items d1 = order_items d @
          [\<lparr>oi_id = next_id d, oi_order = sid, oi_product = ci_product (fst x),
            oi_seller = p_seller (snd x), oi_quantity = ci_quantity (fst x),
            oi_status = PENDING\<rparr>]"
    "orders d1 = orders d" "carts d1 = carts d" "cart_items d1 = cart_items d"
    "addresses d1 = addresses d" "next_id d1 = Suc (next_id d)" by blast
  from Cons.IH[OF rest[unfolded r1]]
  obtain new where ih: "r' = r"
    "\<forall>x\<in>set rest. r (''lock:'' @ stockLockKey (ci_product (fst x))) = None"
    "\<forall>pid. products d' pid = map_option (shiftStock (- demand pid (cartDemand rest))) (products d1 pid)"
    "order_items d' = order_items d1 @ new" "\<forall>i\<in>set new. oi_order i = sid"
    "orderDemand new = cartDemand rest"
    "orders d' = orders d1" "carts d' = carts d1" "cart_items d' = cart_items d1"
    "addresses d' = addresses d1" "next_id d1 \<le> next_id d'" by blast
  have prods: "products d' pid = map_option (shiftStock (- demand pid (cartDemand (x # rest)))) (products d pid)" for pid
    using ih(3) p(1,3) by (cases "products d pid") (auto simp: cartDemand_def)
  let ?row = "\<lparr>oi_id = next_id d, oi_order = sid, oi_product = ci_product (fst x),
            oi_seller = p_seller (snd x), oi_quantity = ci_quantity (fst x),
            oi_status = PENDING\<rparr>"
  have items: "order_items d' = order_items d @ (?row # new)" "\<forall>i\<in>set (?row # new). oi_order i = sid"
    "orderDemand (?row # new) = cartDemand (x # rest)"
    using ih(4,5,6) p(4) by (simp_all add: orderDemand_def cartDemand_def)
  show ?case
    using ih(1,2,7-11) free prods items p(5-9) by (intro conjI) (auto simp del: demand_simps)
qed
lemma createSubOrders_Inr:
  assumes "createSubOrders tok userId parentId groups (d, r) = (Inr u, d', r')"
  shows "r' = r
     \<and> (\<forall>x\<in>set (concat (map snd groups)). r (''lock:'' @ stockLockKey (ci_product (fst x))) = None)
     \<and> (\<forall>pid. products d' pid
            = map_option (shiftStock (- demand pid (cartDemand (concat (map snd groups))))) (products d pid))
     \<and> (\<exists>newO newI. orders d' = orders d @ newO \<and> order_items d' = order_items d @ newI
           \<and> (\<forall>od\<in>set newO. o_parent od = Some parentId \<and> next_id d \<le> o_id od \<and> o_id od < next_id d')
           \<and> distinct (map o_id newO) \<and> length newO = length groups
           \<and> (\<forall>i\<in>set newI. oi_order i \<in> o_id ` set newO)
           \<and> orderDemand newI = cartDemand (concat (map snd groups)))
     \<and> carts d' = carts d \<and> cart_items d' = cart_items d
     \<and> addresses d' = addresses d \<and> next_id d \<le> next_id d'"
  using assms
proof (induction groups arbitrary: d)
  case Nil
  then show ?case by (simp add: cartDemand_def orderDemand_def option.map_ident)
next
  case (Cons g rest)
  obtain sellerId items where g: "g = (sellerId, items)" by (cases g)
  let ?row = "\<lparr>o_id = next_id d, o_user = userId, o_parent = Some parentId, o_seller = Some sellerId,
              o_status = PENDING, o_payment = PAYMENT_PENDING, o_is_parent = False\<rparr>"
  define d1 where "d1 = d\<lparr>orders := orders d @ [?row], next_id := Suc (next_id d)\<rparr>"
  have oc: "order_create
             \<lparr>o_id = 0, o_user = userId, o_parent = Some parentId, o_seller = Some sellerId,
              o_status = PENDING, o_payment = PAYMENT_PENDING, o_is_parent = False\<rparr> d
            = (next_id d, d1)"
    by (simp add: order_create_def d1_def)
  obtain res2 d2 r2 where ci: "createOrderItems tok (next_id d) items (d1, r) = (res2, d2, r2)"
    by (metis prod_cases3)
  then obtain u2 where res2: "res2 = Inr u2"
    and rest: "createSubOrders tok userId parentId rest (d2, r2) = (Inr u, d', r')"
    using Cons.prems g oc by (cases res2) auto
  from createOrderItems_Inr[OF ci[unfolded res2]]
  obtain new where in1: "r2 = r"
    "\<forall>x\<in>set items. r (''lock:'' @ stockLockKey (ci_product (fst x))) = None"
    "\<forall>pid. products d2 pid = map_option (shiftStock (- demand pid (cartDemand items))) (products d1 pid)"
    "order_items d2 = order_items d1 @ new" "\<forall>i\<in>set new. oi_order i = next_id d"
    "orderDemand new = cartDemand items"
    "orders d2 = orders d1" "carts d2 = carts d1" "cart_items d2 = cart_items d1"
    "addresses d2 = addresses d1" "next_id d1 \<le> next_id d2" by blast
  from Cons.IH[OF rest[unfolded in1(1)]]
  obtain newO newI where ih: "r' = r"
    "\<forall>x\<in>set (concat (map snd rest)). r (''lock:'' @ stockLockKey (ci_product (fst x))) = None"
    "\<forall>pid. products d' pid
        = map_option (shiftStock (- demand pid (cartDemand (concat (map snd rest))))) (products d2 pid)"
    "orders d' = orders d2 @ newO" "order_items d' = order_items d2 @ newI"
    "\<forall>od\<in>set newO. o_parent od = Some parentId \<and> next_id d2 \<le> o_id od \<and> o_id od < next_id d'"
    "distinct (map o_id newO)" "length newO = length rest"
    "\<forall>i\<in>set newI. oi_order i \<in> o_id ` set newO"
    "orderDemand newI = cartDemand (concat (map snd rest))"
    "carts d' = carts d2" "cart_items d' = cart_items d2"
    "addresses d' = addresses d2" "next_id d2 \<le> next_id d'" by blast
  have n1: "next_id d1 = Suc (next_id d)" "products d1 = products d" "order_items d1 = order_items d"
    "carts d1 = carts d" "cart_items d1 = cart_items d" "addresses d1 = addresses d"
    "orders d1 = orders d @ [?row]"
    by (simp_all add: d1_def)
  have prods: "products d' pid
      = map_option (shiftStock (- demand pid (cartDemand (concat (map snd (g # rest)))))) (products d pid)" for pid
    using ih(3) in1(3) n1(2) g
    by (cases "products d pid") (simp_all add: cartDemand_def)
  have locks: "\<forall>x\<in>set (concat (map snd (g # rest))). r (''lock:'' @ stockLockKey (ci_product (fst x))) = None"
    using ih(2) in1(2) g by auto
  have o: "orders d' = orders d @ (?row # newO)" using ih(4) in1(7) n1(7) by simp
  have i: "order_items d' = order_items d @ (new @ newI)" using ih(5) in1(4) n1(3) by simp
  have lt: "next_id d < next_id d2" using in1(11) n1(1) by simp
  have po: "\<forall>od\<in>set (?row # newO). o_parent od = Some parentId \<and> next_id d \<le> o_id od \<and> o_id od < next_id d'"
    using ih(6,14) lt by auto
  have di: "distinct (map o_id (?row # newO))" using ih(6,7) lt by auto
  have len: "length (?row # newO) = length (g # rest)" using ih(8) by simp
  have mem: "\<forall>i\<in>set (new @ newI). oi_order i \<in> o_id ` set (?row # newO)"
    using in1(5) ih(9) by auto
  have dem: "orderDemand (new @ newI) = cartDemand (concat (map snd (g # rest)))"
    using in1(6) ih(10) g by (simp add: orderDemand_def cartDemand_def)
  have fr: "carts d' = carts d" "cart_items d' = cart_items d" "addresses d' = addresses d"
    "next_id d \<le> next_id d'"
    using ih(11-14) in1(8-11) n1 by simp_all
  show ?case
    apply (intro conjI)
    using ih(1) apply simp
    using locks apply simp
    using prods apply simp
    using o i po di len mem dem apply blast
    using fr by simp_all
qed
lemma pushBySeller_demand:
  "demand pid (cartDemand (concat (map snd (pushBySeller x acc))))
     = demand pid (cartDemand (concat (map snd acc))) + demand pid (cartDemand [x])"
  by (induction x acc rule: pushBySeller.induct) (auto simp: cartDemand_def)

lemma pushBySeller_set:
  "set (concat (map snd (pushBySeller x acc))) = insert x (set (concat (map snd acc)))"
  by (induction x acc rule: pushBySeller.induct) auto

lemma foldl_pushBySeller_demand:
  "demand pid (cartDemand (concat (map snd (foldl (\<lambda>acc x. pushBySeller x acc) acc items))))
     = demand pid (cartDemand (concat (map snd acc))) + demand pid (cartDemand items)"
proof (induction items arbitrary: acc)
  case Nil
  then show ?case by (simp add: cartDemand_def)
next
  case (Cons x xs)
  have split: "demand pid (cartDemand (x # xs)) = demand pid (cartDemand [x]) + demand pid (cartDemand xs)"
    by (simp add: cartDemand_def)
  show ?case
    using Cons.IH[of "pushBySeller x acc"] pushBySeller_demand[of pid x acc] split by simp
qed

lemma foldl_pushBySeller_set:
  "set (concat (map snd (foldl (\<lambda>acc x. pushBySeller x acc) acc items)))
     = set (concat (map snd acc)) \<union> set items"
proof (induction items arbitrary: acc)
  case Nil
  then show ?case by simp
next
  case (Cons x xs)
  show ?case
    using Cons.IH[of "pushBySeller x acc"] pushBySeller_set[of x acc] by simp
qed

lemma itemsBySeller_demand:
  "demand pid (cartDemand (concat (map snd (itemsBySeller items)))) = demand pid (cartDemand items)"
  using foldl_pushBySeller_demand[of pid "[]" items] by (simp add: itemsBySeller_def cartDemand_def)

lemma itemsBySeller_set:
  "set (concat (map snd (itemsBySeller items))) = set items"
  using foldl_pushBySeller_set[of "[]" items] by (simp add: itemsBySeller_def)

lemma pushBySeller_nonempty: "pushBySeller x acc \<noteq> []"
  by (cases acc) (auto split: if_splits)

lemma itemsBySeller_empty: "itemsBySeller items = [] \<longleftrightarrow> items = []"
proof -
  have "acc \<noteq> [] \<Longrightarrow> foldl (\<lambda>acc x. pushBySeller x acc) acc xs \<noteq> []" for acc xs
    by (induction xs arbitrary: acc) (auto simp: pushBySeller_nonempty)
  then show ?thesis
    by (cases items) (auto simp: itemsBySeller_def pushBySeller_nonempty)
qed

lemma createOrderTx_Inr:
  assumes "createOrderTx tok userId cid groups (d, r) = (Inr parentId, d', r')"
  shows "parentId = next_id d \<and> r' = r
     \<and> (\<forall>x\<in>set (concat (map snd groups)). r (''lock:'' @ stockLockKey (ci_product (fst x))) = None)
     \<and> (\<forall>pid. products d' pid
            = map_option (shiftStock (- demand pid (cartDemand (concat (map snd groups))))) (products d pid))
     \<and> (\<exists>newO newI. orders d' = orders d @
              (\<lparr>o_id = next_id d, o_user = userId, o_parent = None, o_seller = None,
                o_status = PENDING, o_payment = PAYMENT_PENDING, o_is_parent = True\<rparr> # newO)
           \<and> order_items d' = order_items d @ newI
           \<and> (\<forall>od\<in>set newO. o_parent od = Some (next_id d) \<and> next_id d < o_id od)
           \<and> distinct (map o_id newO) \<and> length newO = length groups
           \<and> (\<forall>i\<in>set newI. oi_order i \<in> o_id ` set newO)
           \<and> orderDemand newI = cartDemand (concat (map snd groups)))
     \<and> carts d' = carts d \<and> cart_items d' = filter (\<lambda>i. ci_cart i \<noteq> cid) (cart_items d)
     \<and> addresses d' = addresses d"
proof -
  let ?row = "\<lparr>o_id = next_id d, o_user = userId, o_parent = None, o_seller = None,
                o_status = PENDING, o_payment = PAYMENT_PENDING, o_is_parent = True\<rparr>"
  define d1 where "d1 = d\<lparr>orders := orders d @ [?row], next_id := Suc (next_id d)\<rparr>"
  have oc: "order_create
             \<lparr>o_id = 0, o_user = userId, o_parent = None, o_seller = None,
              o_status = PENDING, o_payment = PAYMENT_PENDING, o_is_parent = True\<rparr> d
            = (next_id d, d1)"
    by (simp add: order_create_def d1_def)
  obtain res2 d2 r2 where cs: "createSubOrders tok userId (next_id d) groups (d1, r) = (res2, d2, r2)"
    by (metis prod_cases3)
  then obtain u2 where res2: "res2 = Inr u2" and pid: "parentId = next_id d"
    and fin: "d' = cartItem_deleteMany (\<lambda>i. ci_cart i = cid) d2" "r' = r2"
    using assms oc by (cases res2) (auto simp: createOrderTx_def)
  from createSubOrders_Inr[OF cs[unfolded res2]]
  obtain newO newI where s: "r2 = r"
    "\<forall>x\<in>set (concat (map snd groups)). r (''lock:'' @ stockLockKey (ci_product (fst x))) = None"
    "\<forall>pid. products d2 pid
        = map_option (shiftStock (- demand pid (cartDemand (concat (map snd groups))))) (products d1 pid)"
    "orders d2 = orders d1 @ newO" "order_items d2 = order_items d1 @ newI"
    "\<forall>od\<in>set newO. o_parent od = Some (next_id d) \<and> next_id d1 \<le> o_id od \<and> o_id od < next_id d2"
    "distinct (map o_id newO)" "length newO = length groups"
    "\<forall>i\<in>set newI. oi_order i \<in> o_id ` set newO"
    "orderDemand newI = cartDemand (concat (map snd groups))"
    "carts d2 = carts d1" "cart_items d2 = cart_items d1"
    "addresses d2 = addresses d1" "next_id d1 \<le> next_id d2" by blast
  have a: "orders d' = orders d @ (?row # newO)" "order_items d' = order_items d @ newI"
    using s(4,5) fin by (simp_all add: cartItem_deleteMany_def d1_def)
  have b: "\<forall>od\<in>set newO. o_parent od = Some (next_id d) \<and> next_id d < o_id od"
    using s(6) by (auto simp: d1_def)
  have c: "\<forall>pid. products d' pid
            = map_option (shiftStock (- demand pid (cartDemand (concat (map snd groups))))) (products d pid)"
    using s(3) fin by (simp add: cartItem_deleteMany_def d1_def)
  have e: "carts d' = carts d" "cart_items d' = filter (\<lambda>i. ci_cart i \<noteq> cid) (cart_items d)"
    "addresses d' = addresses d"
    using s(11-13) fin by (simp_all add: cartItem_deleteMany_def d1_def)
  show ?thesis
    apply (intro conjI)
    using pid apply simp
    using fin s(1) apply simp
    using s(2) apply simp
    using c apply simp
    using a b s(7-10) apply blast
    using e by simp_all
qed

lemma getOrderById_found:
  assumes "od \<in> set (orders d)" "o_id od = k" "o_user od = u"
  shows "\<exists>resp. getOrderById u k d = Inr resp \<and> o_id (or_order resp) = k"
proof -
  obtain y where y: "find (\<lambda>od. o_id od = k \<and> o_user od = u) (orders d) = Some y"
    using assms by (cases "find (\<lambda>od. o_id od = k \<and> o_user od = u) (orders d)")
                   (auto simp: find_None_iff)
  then have "o_id y = k" using find_SomeP[OF y] by simp
  then show ?thesis using y by (simp add: getOrderById_def Let_def)
qed
lemma createOrder_cases:
  assumes "createOrder tok now userId addressId (d, r) = (res, d', r')"
  shows "(\<exists>e. res = Inl e \<and> d' = d)
     \<or> (\<exists>cart resp. res = Inr resp
           \<and> find (\<lambda>c. c_user c = Some userId) (carts d) = Some cart
           \<and> validateItems now (c_id cart) (loadItems d (c_id cart)) d = None
           \<and> createOrderTx tok userId (c_id cart) (itemsBySeller (loadItems d (c_id cart))) (d, r)
                = (Inr (next_id d), d', r')
           \<and> getOrderById userId (next_id d) d' = Inr resp)"
proof (cases "find (\<lambda>c. c_user c = Some userId) (carts d)")
  case None
  then show ?thesis using assms by (auto simp: createOrder_def)
next
  case (Some cart)
  let ?items = "loadItems d (c_id cart)"
  let ?tx = "createOrderTx tok userId (c_id cart) (itemsBySeller ?items) (d, r)"
  show ?thesis
  proof (cases "length (filter (\<lambda>i. ci_cart i = c_id cart) (cart_items d)) = 0
                \<or> addresses d addressId \<noteq> Some userId
                \<or> validateItems now (c_id cart) ?items d \<noteq> None")
    case True
    then show ?thesis using assms Some
      by (auto simp: createOrder_def Let_def split: if_splits option.splits)
  next
    case False
    obtain res1 d1 r1 where tx: "?tx = (res1, d1, r1)" by (metis prod_cases3)
    show ?thesis
    proof (cases res1)
      case (Inl e)
      then show ?thesis using assms Some False tx
        by (auto simp: createOrder_def Let_def transaction_def)
    next
      case (Inr parentId)
      from createOrderTx_Inr[OF tx[unfolded Inr]]
      obtain newO where p: "parentId = next_id d"
        "orders d1 = orders d @
              (\<lparr>o_id = next_id d, o_user = userId, o_parent = None, o_seller = None,
                o_status = PENDING, o_payment = PAYMENT_PENDING, o_is_parent = True\<rparr> # newO)"
        by blast
      have fin: "res = getOrderById userId (next_id d) d1" "d' = d1" "r' = r1"
        using assms Some False tx Inr p(1)
        by (auto simp: createOrder_def Let_def transaction_def)
      obtain resp where "getOrderById userId (next_id d) d1 = Inr resp"
        using getOrderById_found[of
            "\<lparr>o_id = next_id d, o_user = userId, o_parent = None, o_seller = None,
               o_status = PENDING, o_payment = PAYMENT_PENDING, o_is_parent = True\<rparr>"
            d1 "next_id d" userId] p(2) by auto
      then show ?thesis using fin Some False tx Inr p(1) by auto
    qed
  qed
qed


lemma find_append_none:
  "\<forall>x\<in>set xs. \<not> P x \<Longrightarrow> find P (xs @ ys) = find P ys"
  by (induction xs) auto

lemma getOrderById_id:
  "getOrderById u k d = Inr resp \<Longrightarrow> o_id (or_order resp) = k"
  by (auto simp: getOrderById_def Let_def split: option.splits if_splits dest!: find_SomeP)

lemma product_increment_ok:
  assumes "products d pid = Some p"
  shows "product_increment pid q d = Inr (d\<lparr>products := (products d)(pid \<mapsto> shiftStock q p)\<rparr>)"
  using assms by (simp add: product_increment_def shiftStock_def)

lemma restoreStock_ok:
  assumes "\<forall>i\<in>set its. r (''lock:'' @ stockLockKey (oi_product i)) = None
                         \<and> products d (oi_product i) \<noteq> None"
  shows "\<exists>d'. restoreStock tok its (d, r) = (Inr (), d', r)
     \<and> (\<forall>pid. products d' pid = map_option (shiftStock (demand pid (orderDemand its))) (products d pid))
     \<and> orders d' = orders d \<and> order_items d' = order_items d \<and> carts d' = carts d
     \<and> cart_items d' = cart_items d \<and> addresses d' = addresses d \<and> next_id d' = next_id d"
  using assms
proof (induction its arbitrary: d)
  case Nil
  then show ?case by (simp add: orderDemand_def option.map_ident)
next
  case (Cons item rest)
  obtain p where p: "products d (oi_product item) = Some p" using Cons.prems by auto
  define d1 where "d1 = d\<lparr>products := (products d)(oi_product item \<mapsto> shiftStock (oi_quantity item) p)\<rparr>"
  let ?fn = "\<lambda>d. case product_increment (oi_product item) (oi_quantity item) d of
                     Inl e \<Rightarrow> (Inl e, d)
                   | Inr d' \<Rightarrow> (Inr (), d')"
  have fn: "?fn d = (Inr (), d1)"
    using product_increment_ok[OF p, of "oi_quantity item"] by (simp add: d1_def)
  have free: "r (''lock:'' @ stockLockKey (oi_product item)) = None" using Cons.prems by simp
  have w: "withLock (stockLockKey (oi_product item)) tok ?fn (d, r) = (Inr (), d1, r)"
    using withLock_free[of r "stockLockKey (oi_product item)" tok ?fn d] free fn by simp
  have pre: "\<forall>i\<in>set rest. r (''lock:'' @ stockLockKey (oi_product i)) = None
                         \<and> products d1 (oi_product i) \<noteq> None"
    using Cons.prems by (auto simp: d1_def)
  from Cons.IH[OF pre]
  obtain d' where ih: "restoreStock tok rest (d1, r) = (Inr (), d', r)"
    "\<forall>pid. products d' pid = map_option (shiftStock (demand pid (orderDemand rest))) (products d1 pid)"
    "orders d' = orders d1" "order_items d' = order_items d1" "carts d' = carts d1"
    "cart_items d' = cart_items d1" "addresses d' = addresses d1" "next_id d' = next_id d1"
    by blast
  have prods: "products d' pid = map_option (shiftStock (demand pid (orderDemand (item # rest)))) (products d pid)" for pid
    using ih(2) p by (cases "products d pid") (auto simp: d1_def orderDemand_def)
  have "restoreStock tok (item # rest) (d, r) = (Inr (), d', r)"
    using w ih(1) by simp
  then show ?case using prods ih(3-8) by (auto simp: d1_def)
qed

lemma order_update_exists:
  assumes "(k, u) \<in> set (orderKeys d)" "\<And>x. o_id (f x) = o_id x \<and> o_user (f x) = o_user x"
  shows "\<exists>d'. order_update k f d = Inr d' \<and> orderKeys d' = orderKeys d
     \<and> products d' = products d \<and> order_items d' = order_items d \<and> carts d' = carts d
     \<and> cart_items d' = cart_items d \<and> addresses d' = addresses d \<and> next_id d' = next_id d"
proof -
  have "find (\<lambda>od. o_id od = k) (orders d) \<noteq> None"
    using assms(1) by (auto simp: orderKeys_def find_None_iff)
  then show ?thesis
    using assms(2) by (auto simp: order_update_def order_findUnique_def orderKeys_def)
qed
lemma cancelSubOrders_ok:
  assumes "\<forall>x\<in>set subs. (o_id (fst x), o_user (fst x)) \<in> set (orderKeys d)
              \<and> (\<forall>i\<in>set (snd x). r (''lock:'' @ stockLockKey (oi_product i)) = None
                                   \<and> products d (oi_product i) \<noteq> None)"
  shows "\<exists>d'. cancelSubOrders tok subs (d, r) = (Inr (), d', r)
     \<and> (\<forall>pid. products d' pid
            = map_option (shiftStock (demand pid (orderDemand (concat (map snd subs))))) (products d pid))
     \<and> orderKeys d' = orderKeys d"
  using assms
proof (induction subs arbitrary: d)
  case Nil
  then show ?case by (simp add: orderDemand_def option.map_ident)
next
  case (Cons x rest)
  obtain so its where x: "x = (so, its)" by (cases x)
  let ?f = "\<lambda>od. od\<lparr>o_status := CANCELLED, o_payment := REFUNDED\<rparr>"
  have k: "(o_id so, o_user so) \<in> set (orderKeys d)" using Cons.prems x by simp
  from order_update_exists[OF k, of ?f]
  obtain d1 where u: "order_update (o_id so) ?f d = Inr d1" "orderKeys d1 = orderKeys d"
    "products d1 = products d" by auto
  define d2 where "d2 = orderItem_updateMany (\<lambda>i. oi_order i = o_id so)
                     (\<lambda>i. i\<lparr>oi_status := CANCELLED\<rparr>) d1"
  have d2: "orderKeys d2 = orderKeys d" "products d2 = products d"
    using u by (simp_all add: d2_def orderItem_updateMany_def orderKeys_def)
  have pre: "\<forall>i\<in>set its. r (''lock:'' @ stockLockKey (oi_product i)) = None
                         \<and> products d2 (oi_product i) \<noteq> None"
    using Cons.prems x d2(2) by simp
  from restoreStock_ok[OF pre, of tok]
  obtain d3 where rs: "restoreStock tok its (d2, r) = (Inr (), d3, r)"
    "\<forall>pid. products d3 pid = map_option (shiftStock (demand pid (orderDemand its))) (products d2 pid)"
    "orders d3 = orders d2" by blast
  have k3: "orderKeys d3 = orderKeys d" using rs(3) d2(1) by (simp add: orderKeys_def)
  have dom3: "products d3 pid \<noteq> None \<longleftrightarrow> products d pid \<noteq> None" for pid
    using rs(2) d2(2) by simp
  have pre3: "\<forall>x\<in>set rest. (o_id (fst x), o_user (fst x)) \<in> set (orderKeys d3)
              \<and> (\<forall>i\<in>set (snd x). r (''lock:'' @ stockLockKey (oi_product i)) = None
                                   \<and> products d3 (oi_product i) \<noteq> None)"
    using Cons.prems k3 dom3 by simp
  from Cons.IH[OF pre3]
  obtain d' where ih: "cancelSubOrders tok rest (d3, r) = (Inr (), d', r)"
    "\<forall>pid. products d' pid
        = map_option (shiftStock (demand pid (orderDemand (concat (map snd rest))))) (products d3 pid)"
    "orderKeys d' = orderKeys d3" by blast
  have run: "cancelSubOrders tok (x # rest) (d, r) = (Inr (), d', r)"
    using x u(1) rs(1) ih(1) by (simp add: d2_def Let_def)
  have prods: "products d' pid
        = map_option (shiftStock (demand pid (orderDemand (concat (map snd (x # rest)))))) (products d pid)" for pid
    using ih(2) rs(2) d2(2) x
    by (cases "products d pid") (simp_all add: orderDemand_def add.commute)
  show ?case using run prods ih(3) k3 by auto
qed

lemma sum_indicator_distinct:
  fixes w :: int
  assumes "distinct (map f ss)" "k \<in> f ` set ss"
  shows "sum_list (map (\<lambda>s. if k = f s then w else 0) ss) = w"
  using assms
proof (induction ss)
  case Nil
  then show ?case by simp
next
  case (Cons s ss)
  show ?case
  proof (cases "k = f s")
    case True
    then have "k \<notin> f ` set ss" using Cons.prems(1) by auto
    then have "sum_list (map (\<lambda>s. if k = f s then w else 0) ss) = 0"
      by (induction ss) auto
    then show ?thesis using True by simp
  next
    case False
    then show ?thesis using Cons by auto
  qed
qed

lemma demand_concat:
  "demand pid (orderDemand (concat (map h ss))) = sum_list (map (\<lambda>s. demand pid (orderDemand (h s))) ss)"
  by (induction ss) (simp_all add: orderDemand_def)

lemma demand_partition:
  assumes "distinct (map f ss)" "\<forall>i\<in>set xs. oi_order i \<in> f ` set ss"
  shows "demand pid (orderDemand (concat (map (\<lambda>s. filter (\<lambda>i. oi_order i = f s) xs) ss)))
           = demand pid (orderDemand xs)"
proof -
  have "sum_list (map (\<lambda>s. demand pid (orderDemand (filter (\<lambda>i. oi_order i = f s) xs))) ss)
          = demand pid (orderDemand xs)"
    using assms(2)
  proof (induction xs)
    case Nil
    then show ?case by (simp add: orderDemand_def)
  next
    case (Cons x xs)
    let ?w = "if oi_product x = pid then oi_quantity x else 0"
    have step: "demand pid (orderDemand (filter (\<lambda>i. oi_order i = f s) (x # xs)))
            = (if oi_order x = f s then ?w else 0)
              + demand pid (orderDemand (filter (\<lambda>i. oi_order i = f s) xs))" for s
      by (simp add: orderDemand_def)
    have "sum_list (map (\<lambda>s. demand pid (orderDemand (filter (\<lambda>i. oi_order i = f s) (x # xs)))) ss)
        = sum_list (map (\<lambda>s. if oi_order x = f s then ?w else 0) ss)
          + sum_list (map (\<lambda>s. demand pid (orderDemand (filter (\<lambda>i. oi_order i = f s) xs))) ss)"
      by (simp only: step sum_list_addf)
    also have "\<dots> = ?w + demand pid (orderDemand xs)"
      using sum_indicator_distinct[OF assms(1), of "oi_order x" ?w] Cons by simp
    also have "\<dots> = demand pid (orderDemand (x # xs))" by (simp add: orderDemand_def)
    finally show ?case .
  qed
  then show ?thesis by (simp add: demand_concat)
qed
section \<open>Properties of the order service\<close>

text \<open>
  C2. \<^verbatim>\<open>createOrder\<close> is atomic. Whenever it fails, whatever the failing step
  (validation, a lock that cannot be acquired, insufficient stock on one item), the
  database after the call is the database before it: no parent order, no sub-order, no
  order item, no stock deduction and the cart untouched. Whenever it succeeds, the rows of
  the user's cart are gone (and only they), the new order items carry, sub-order by
  sub-order, the product and quantity of every cart item, and every product's stock has
  gone down by exactly the quantity the cart held of it.
\<close>

theorem createOrder_atomic:
  assumes "createOrder tok now userId addressId (d, r) = (res, d', r')"
  shows "(\<forall>e. res = Inl e \<longrightarrow> d' = d)
     \<and> (\<forall>resp. res = Inr resp \<longrightarrow>
          (\<exists>cart. find (\<lambda>c. c_user c = Some userId) (carts d) = Some cart
             \<and> cart_items d' = filter (\<lambda>i. ci_cart i \<noteq> c_id cart) (cart_items d)
             \<and> (\<exists>new. order_items d' = order_items d @ new
                   \<and> orderDemand new
                       = cartDemand (concat (map snd (itemsBySeller (loadItems d (c_id cart))))))
             \<and> (\<forall>pid. products d' pid
                    = map_option (shiftStock (- demand pid (cartDemand (loadItems d (c_id cart)))))
                        (products d pid))))"
proof -
  from createOrder_cases[OF assms]
  show ?thesis
  proof
    assume "\<exists>e. res = Inl e \<and> d' = d"
    then show ?thesis by auto
  next
    assume "\<exists>cart resp. res = Inr resp
           \<and> find (\<lambda>c. c_user c = Some userId) (carts d) = Some cart
           \<and> validateItems now (c_id cart) (loadItems d (c_id cart)) d = None
           \<and> createOrderTx tok userId (c_id cart) (itemsBySeller (loadItems d (c_id cart))) (d, r)
                = (Inr (next_id d), d', r')
           \<and> getOrderById userId (next_id d) d' = Inr resp"
    then obtain cart resp where c: "res = Inr resp"
      "find (\<lambda>c. c_user c = Some userId) (carts d) = Some cart"
      "createOrderTx tok userId (c_id cart) (itemsBySeller (loadItems d (c_id cart))) (d, r)
                = (Inr (next_id d), d', r')" by blast
    from createOrderTx_Inr[OF c(3)]
    obtain newI where t:
      "\<forall>pid. products d' pid
            = map_option (shiftStock (- demand pid
                 (cartDemand (concat (map snd (itemsBySeller (loadItems d (c_id cart))))))))
                (products d pid)"
      "order_items d' = order_items d @ newI"
      "orderDemand newI = cartDemand (concat (map snd (itemsBySeller (loadItems d (c_id cart)))))"
      "cart_items d' = filter (\<lambda>i. ci_cart i \<noteq> c_id cart) (cart_items d)"
      by blast
    have "\<forall>pid. products d' pid
            = map_option (shiftStock (- demand pid (cartDemand (loadItems d (c_id cart)))))
                (products d pid)"
      using t(1) by (simp add: itemsBySeller_demand)
    then show ?thesis using c(1,2) t(2,3,4) by auto
  qed
qed

theorem createOrder_atomic_witness:
  "fst (createOrder ''t'' 1000 ''u1'' ''a1'' (db_two, p2_locked)) = Inl LockTimeout
   \<and> fst (snd (createOrder ''t'' 1000 ''u1'' ''a1'' (db_two, p2_locked))) = db_two
   \<and> length (orders (fst (snd (createOrderTx ''t'' ''u1'' 1 (itemsBySeller (loadItems db_two 1))
                                  (db_two, p2_locked))))) = 3
   \<and> map_option p_stock
        (products (fst (snd (createOrderTx ''t'' ''u1'' 1 (itemsBySeller (loadItems db_two 1))
                               (db_two, p2_locked)))) ''p1'') = Some 1
   \<and> cart_items (fst (snd (createOrder ''t'' 1000 ''u1'' ''a1'' (db_two, Map.empty)))) = []
   \<and> map_option p_stock
        (products (fst (snd (createOrder ''t'' 1000 ''u1'' ''a1'' (db_two, Map.empty)))) ''p1'') = Some 1
   \<and> map_option p_stock
        (products (fst (snd (createOrder ''t'' 1000 ''u1'' ''a1'' (db_two, Map.empty)))) ''p2'') = Some 3"
proof -
  let ?fail = "createOrder ''t'' 1000 ''u1'' ''a1'' (db_two, p2_locked)"
  let ?ok = "createOrder ''t'' 1000 ''u1'' ''a1'' (db_two, Map.empty)"
  have f1: "fst ?fail = Inl LockTimeout" by code_simp
  have f2: "?fail = (fst ?fail, fst (snd ?fail), snd (snd ?fail))" by simp
  have w2: "fst (snd ?fail) = db_two"
    using createOrder_atomic[OF f2] f1 by simp
  have w3: "length (orders (fst (snd (createOrderTx ''t'' ''u1'' 1 (itemsBySeller (loadItems db_two 1))
                                  (db_two, p2_locked))))) = 3" by code_simp
  have w4: "map_option p_stock
        (products (fst (snd (createOrderTx ''t'' ''u1'' 1 (itemsBySeller (loadItems db_two 1))
                               (db_two, p2_locked)))) ''p1'') = Some 1" by code_simp
  have "\<not> isl (fst ?ok)" by code_simp
  then obtain resp where s1: "fst ?ok = Inr resp" by (cases "fst ?ok") auto
  have s2: "?ok = (fst ?ok, fst (snd ?ok), snd (snd ?ok))" by simp
  have cart: "find (\<lambda>c. c_user c = Some ''u1'') (carts db_two)
                = Some \<lparr>c_id = 1, c_user = Some ''u1'', c_session = None, c_expires = None\<rparr>"
    by (simp add: db_two_def)
  from createOrder_atomic[OF s2] s1 cart
  have ok: "cart_items (fst (snd ?ok)) = filter (\<lambda>i. ci_cart i \<noteq> 1) (cart_items db_two)"
    "\<forall>pid. products (fst (snd ?ok)) pid
        = map_option (shiftStock (- demand pid (cartDemand (loadItems db_two 1)))) (products db_two pid)"
    by auto
  have li: "cartDemand (loadItems db_two 1) = [(''p1'', 2), (''p2'', 1)]"
    by (simp add: cartDemand_def loadItems_def db_two_def List.map_filter_simps)
  have w5: "cart_items (fst (snd ?ok)) = []" using ok(1) by (simp add: db_two_def)
  have w6: "map_option p_stock (products (fst (snd ?ok)) ''p1'') = Some 1"
    using ok(2) li by (simp add: db_two_def)
  have w7: "map_option p_stock (products (fst (snd ?ok)) ''p2'') = Some 3"
    using ok(2) li by (simp add: db_two_def)
  from f1 w2 w3 w4 w5 w6 w7 show ?thesis by blast
qed

text \<open>
  C3. Round trip. From any database whose identifiers are fresh (\<open>freshIds\<close>), when
  \<^verbatim>\<open>createOrder\<close> runs to completion and \<^verbatim>\<open>cancelOrder\<close> is then called by the same
  user on the order that was returned, the cancellation succeeds and the product table is
  exactly the one before the order: every product's stock is back at its value.
\<close>

theorem createOrder_cancelOrder_roundtrip:
  assumes fresh: "freshIds d"
    and co: "createOrder tok now userId addressId (d, r) = (Inr resp, d1, r1)"
  shows "\<exists>resp2 d2. cancelOrder tok2 userId (o_id (or_order resp)) (d1, r1) = (Inr resp2, d2, r1)
           \<and> products d2 = products d"
proof -
  let ?n = "next_id d"
  let ?parent = "\<lparr>o_id = ?n, o_user = userId, o_parent = None, o_seller = None,
                   o_status = PENDING, o_payment = PAYMENT_PENDING, o_is_parent = True\<rparr>"
  let ?c = "\<lambda>od. od\<lparr>o_status := CANCELLED, o_payment := REFUNDED\<rparr>"
  from createOrder_cases[OF co]
  obtain cart :: cart where tx: "createOrderTx tok userId (c_id cart) (itemsBySeller (loadItems d (c_id cart))) (d, r)
                = (Inr ?n, d1, r1)"
    and g: "getOrderById userId ?n d1 = Inr resp" by auto
  define groups where "groups = itemsBySeller (loadItems d (c_id cart))"
  have rid: "o_id (or_order resp) = ?n" using getOrderById_id[OF g] .
  from createOrderTx_Inr[OF tx]
  obtain newO newI where r1: "r1 = r"
    and locks: "\<forall>x\<in>set (concat (map snd groups)). r (''lock:'' @ stockLockKey (ci_product (fst x))) = None"
    and prods1: "\<forall>pid. products d1 pid
            = map_option (shiftStock (- demand pid (cartDemand (concat (map snd groups))))) (products d pid)"
    and o1: "orders d1 = orders d @ (?parent # newO)"
    and i1: "order_items d1 = order_items d @ newI"
    and no: "\<forall>od\<in>set newO. o_parent od = Some ?n \<and> ?n < o_id od"
    and dist: "distinct (map o_id newO)"
    and len: "length newO = length groups"
    and mem: "\<forall>i\<in>set newI. oi_order i \<in> o_id ` set newO"
    and dem: "orderDemand newI = cartDemand (concat (map snd groups))"
    unfolding groups_def by blast
  have oldO: "\<forall>od\<in>set (orders d). o_id od < ?n \<and> o_parent od \<noteq> Some ?n"
    using fresh by (auto simp: freshIds_def)
  have oldI: "\<forall>i\<in>set (order_items d). oi_order i < ?n"
    using fresh by (auto simp: freshIds_def)
  have found: "find (\<lambda>od. o_id od = ?n \<and> o_user od = userId) (orders d1) = Some ?parent"
  proof -
    have "\<forall>od\<in>set (orders d). \<not> (o_id od = ?n \<and> o_user od = userId)" using oldO by auto
    then show ?thesis using find_append_none[of "orders d" _ "?parent # newO"] o1 by simp
  qed
  have subsd: "sub_orders d1 ?n = newO"
  proof -
    have "filter (\<lambda>od. o_parent od = Some ?n) (orders d) = []"
      using oldO by (auto simp: filter_empty_conv)
    moreover have "filter (\<lambda>od. o_parent od = Some ?n) newO = newO"
      using no by (auto simp: filter_id_conv)
    ultimately show ?thesis by (simp add: sub_orders_def o1)
  qed
  have itemsOf: "items_of d1 (o_id so) = filter (\<lambda>i. oi_order i = o_id so) newI" if "so \<in> set newO" for so
  proof -
    have "filter (\<lambda>i. oi_order i = o_id so) (order_items d) = []"
      using oldI no that by (fastforce simp: filter_empty_conv)
    then show ?thesis by (simp add: items_of_def i1)
  qed
  have itemsParent: "items_of d1 ?n = []"
  proof -
    have "filter (\<lambda>i. oi_order i = ?n) (order_items d) = []"
      using oldI by (auto simp: filter_empty_conv)
    moreover have "filter (\<lambda>i. oi_order i = ?n) newI = []"
      using mem no by (fastforce simp: filter_empty_conv)
    ultimately show ?thesis by (simp add: items_of_def i1)
  qed
  define subs where "subs = map (\<lambda>subOrder. (subOrder, items_of d1 (o_id subOrder))) newO"
  have subs_eq: "concat (map snd subs)
                   = concat (map (\<lambda>so. filter (\<lambda>i. oi_order i = o_id so) newI) newO)"
    using itemsOf by (auto simp: subs_def comp_def intro!: arg_cong[where f = concat] map_cong)
  have keys: "(?n, userId) \<in> set (orderKeys d1)"
    "\<forall>so\<in>set newO. (o_id so, o_user so) \<in> set (orderKeys d1)"
    by (auto simp: orderKeys_def o1)
  have prodsIn: "\<forall>i\<in>set newI. r (''lock:'' @ stockLockKey (oi_product i)) = None
                             \<and> products d1 (oi_product i) \<noteq> None"
  proof
    fix i assume "i \<in> set newI"
    then have "(oi_product i, oi_quantity i) \<in> set (orderDemand newI)"
      by (auto simp: orderDemand_def)
    then obtain x where x: "x \<in> set (concat (map snd groups))" "oi_product i = ci_product (fst x)"
      unfolding dem cartDemand_def by auto
    then have "x \<in> set (loadItems d (c_id cart))"
      using itemsBySeller_set[of "loadItems d (c_id cart)"] by (simp only: groups_def)
    then have "products d (ci_product (fst x)) \<noteq> None"
      using loadItems_rows[of x d "c_id cart"] by simp
    then have "products d1 (oi_product i) \<noteq> None" using prods1 x(2) by simp
    then show "r (''lock:'' @ stockLockKey (oi_product i)) = None \<and> products d1 (oi_product i) \<noteq> None"
      using locks x by auto
  qed
  have pre: "\<forall>x\<in>set subs. (o_id (fst x), o_user (fst x)) \<in> set (orderKeys d1)
              \<and> (\<forall>i\<in>set (snd x). r (''lock:'' @ stockLockKey (oi_product i)) = None
                                   \<and> products d1 (oi_product i) \<noteq> None)"
    using keys(2) prodsIn itemsOf by (auto simp: subs_def)
  from cancelSubOrders_ok[OF pre, of tok2]
  obtain d2 where cs: "cancelSubOrders tok2 subs (d1, r) = (Inr (), d2, r)"
    and prods2: "\<forall>pid. products d2 pid
            = map_option (shiftStock (demand pid (orderDemand (concat (map snd subs))))) (products d1 pid)"
    and keys2: "orderKeys d2 = orderKeys d1" by blast
  have restored: "products d2 = products d"
  proof
    fix pid
    have "demand pid (orderDemand (concat (map snd subs))) = demand pid (orderDemand newI)"
      unfolding subs_eq using demand_partition[OF dist mem] .
    then have "products d2 pid
        = map_option (shiftStock (demand pid (cartDemand (concat (map snd groups)))))
            (map_option (shiftStock (- demand pid (cartDemand (concat (map snd groups))))) (products d pid))"
      using prods2 prods1 dem by simp
    then show "products d2 pid = products d pid"
      by (cases "products d pid") simp_all
  qed
  \<comment> \<open>the branch that the transaction takes\<close>
  have branch: "\<exists>d3. (if o_is_parent ?parent \<and> length subs > 0
            then cancelSubOrders tok2 subs (d1, r)
            else (case restoreStock tok2 (items_of d1 ?n) (d1, r) of
                    (Inl e, s') \<Rightarrow> (Inl e, s')
                  | (Inr u, d', r') \<Rightarrow>
                     (Inr (), orderItem_updateMany (\<lambda>i. oi_order i = ?n)
                                (\<lambda>i. i\<lparr>oi_status := CANCELLED\<rparr>) d', r')))
          = (Inr (), d3, r) \<and> products d3 = products d \<and> orderKeys d3 = orderKeys d1"
  proof (cases "length subs > 0")
    case True
    then show ?thesis using cs restored keys2 by simp
  next
    case False
    then have "subs = []" by simp
    then have "d2 = d1" using cs by simp
    then have "products d1 = products d" using restored by simp
    then show ?thesis using False itemsParent
      by (simp add: orderItem_updateMany_def orderKeys_def)
  qed
  then obtain d3 where b3: "(if o_is_parent ?parent \<and> length subs > 0
            then cancelSubOrders tok2 subs (d1, r)
            else (case restoreStock tok2 (items_of d1 ?n) (d1, r) of
                    (Inl e, s') \<Rightarrow> (Inl e, s')
                  | (Inr u, d', r') \<Rightarrow>
                     (Inr (), orderItem_updateMany (\<lambda>i. oi_order i = ?n)
                                (\<lambda>i. i\<lparr>oi_status := CANCELLED\<rparr>) d', r')))
          = (Inr (), d3, r)" and p3: "products d3 = products d" and k3: "orderKeys d3 = orderKeys d1"
    by blast
  have kin: "(?n, userId) \<in> set (orderKeys d3)" using keys(1) k3 by simp
  from order_update_exists[OF kin, of ?c]
  obtain d4 where u4: "order_update ?n ?c d3 = Inr d4" and k4: "orderKeys d4 = orderKeys d3"
    and p4: "products d4 = products d3" by auto
  have txc: "cancelOrderTx tok2 ?n ?parent (items_of d1 ?n) subs (d1, r) = (Inr (), d4, r)"
    unfolding cancelOrderTx_def using b3 u4 by simp
  have "(?n, userId) \<in> set (orderKeys d4)" using kin k4 by simp
  then obtain od where "od \<in> set (orders d4)" "o_id od = ?n" "o_user od = userId"
    by (auto simp: orderKeys_def)
  from getOrderById_found[OF this]
  obtain resp2 where g2: "getOrderById userId ?n d4 = Inr resp2" by blast
  have "cancelOrder tok2 userId ?n (d1, r) = (Inr resp2, d4, r)"
    using found txc g2 subsd by (simp add: cancelOrder_def Let_def transaction_def subs_def)
  then show ?thesis using rid r1 p4 p3 by auto
qed

theorem createOrder_cancelOrder_roundtrip_witness:
  "map_option p_stock
     (products (fst (snd (createOrder ''t'' 1000 ''u1'' ''a1'' (db_two, Map.empty)))) ''p1'') = Some 1
   \<and> map_option p_stock
     (products (fst (snd (createOrder ''t'' 1000 ''u1'' ''a1'' (db_two, Map.empty)))) ''p2'') = Some 3
   \<and> (\<exists>resp2 d2. cancelOrder ''t2'' ''u1'' 4 (snd (createOrder ''t'' 1000 ''u1'' ''a1'' (db_two, Map.empty)))
                     = (Inr resp2, d2, snd (snd (createOrder ''t'' 1000 ''u1'' ''a1'' (db_two, Map.empty))))
          \<and> products d2 = products db_two)"
proof -
  let ?ok = "createOrder ''t'' 1000 ''u1'' ''a1'' (db_two, Map.empty)"
  have fresh: "freshIds db_two" by (simp add: freshIds_def db_two_def)
  have "map_sum id (\<lambda>resp. o_id (or_order resp)) (fst ?ok) = Inr 4" by code_simp
  then obtain resp where resp: "fst ?ok = Inr resp" "o_id (or_order resp) = 4"
    by (cases "fst ?ok") auto
  have co: "?ok = (Inr resp, fst (snd ?ok), snd (snd ?ok))"
    using resp(1) by (metis prod.collapse)
  have w1: "map_option p_stock (products (fst (snd ?ok)) ''p1'') = Some 1" by code_simp
  have w2: "map_option p_stock (products (fst (snd ?ok)) ''p2'') = Some 3" by code_simp
  from createOrder_cancelOrder_roundtrip[OF fresh co, of "''t2''"] resp(2)
  have "\<exists>resp2 d2. cancelOrder ''t2'' ''u1'' 4 (snd ?ok) = (Inr resp2, d2, snd (snd ?ok))
          \<and> products d2 = products db_two"
    by simp
  with w1 w2 show ?thesis by blast
qed

section \<open>The stock invariant\<close>

lemma stockInvariant_frame:
  assumes "stockInvariant d" "products d' = products d"
    "set (cart_items d') \<subseteq> set (cart_items d)" "set (order_items d') \<subseteq> set (order_items d)"
  shows "stockInvariant d'"
  using assms unfolding stockInvariant_def by (metis subsetD)

lemma withLock_inv:
  assumes "withLock key tok fn (s, r) = (res, s', r')" "P s"
    "\<And>res s'. fn s = (res, s') \<Longrightarrow> P s'"
  shows "P s'"
proof (cases "r (''lock:'' @ key) = None")
  case True
  then show ?thesis using withLock_result(3)[OF assms(1)] assms(3) by blast
next
  case False
  then show ?thesis using withLock_result(2)[OF assms(1)] assms(2) by simp
qed

lemma addToCartLocked_inv:
  assumes "stockInvariant d" "0 < quantity"
    "addToCartLocked now userId sessionId product_id quantity d = (res, d')"
  shows "stockInvariant d'"
proof (cases "products d product_id")
  case None
  then show ?thesis using assms by (simp add: addToCartLocked_def)
next
  case (Some product)
  show ?thesis
  proof (cases "p_stock product - reservedQuantity (\<lambda>i. True) now product_id d < quantity")
    case True
    then show ?thesis using assms Some by (simp add: addToCartLocked_def)
  next
    case False
    obtain rc d1 where rc: "resolveCart now userId sessionId d = (rc, d1)" by (cases "resolveCart now userId sessionId d")
    have d1: "products d1 = products d" "cart_items d1 = cart_items d" "order_items d1 = order_items d"
      using rc by (auto simp: resolveCart_def cart_create_def Let_def split: option.splits if_splits)
    have inv1: "stockInvariant d1"
      using stockInvariant_frame[OF assms(1)] d1 by simp
    show ?thesis
    proof (cases rc)
      case (Inl e)
      then show ?thesis using assms Some False rc inv1 by (simp add: addToCartLocked_def)
    next
      case (Inr cart)
      let ?exp = "now + RESERVATION_TTL_MINUTES * 60 * 1000"
      show ?thesis
      proof (cases "cartItem_findUnique (c_id cart) product_id d1")
        case None
        define d2 where "d2 = cartItem_create
                                \<lparr>ci_id = 0, ci_cart = c_id cart, ci_product = product_id,
                                 ci_quantity = quantity, ci_expires = Some ?exp\<rparr> d1"
        have inv2: "stockInvariant d2"
          using inv1 assms(2) by (auto simp: stockInvariant_def d2_def cartItem_create_def)
        have "getCart now userId sessionId d2 = (res, d')"
          using assms(3) Some False rc Inr None by (simp add: addToCartLocked_def d2_def)
        from getCart_shrinks[OF this] show ?thesis
          using stockInvariant_frame[OF inv2, of d'] by simp
      next
        case (Some existing)
        note ex = Some
        show ?thesis
        proof (cases "p_stock product - reservedQuantity (\<lambda>i. ci_id i \<noteq> ci_id existing) now product_id d1 < quantity")
          case True
          then show ?thesis
            using assms(3) \<open>products d product_id = Some product\<close> False rc Inr ex inv1
            by (simp add: addToCartLocked_def)
        next
          case nolack: False
          obtain d2 where u: "cartItem_update (ci_id existing)
                                 (\<lambda>i. i\<lparr>ci_quantity := quantity, ci_expires := Some ?exp\<rparr>) d1 = Inr d2"
            using cartItem_findUnique_mem(4)[OF ex] by (auto simp: cartItem_update_def)
          have inv2: "stockInvariant d2"
            using u inv1 assms(2)
            by (auto simp: stockInvariant_def cartItem_update_def split: if_splits)
          have "getCart now userId sessionId d2 = (res, d')"
            using assms(3) \<open>products d product_id = Some product\<close> False rc Inr ex nolack u
            by (simp add: addToCartLocked_def)
          from getCart_shrinks[OF this] show ?thesis
            using stockInvariant_frame[OF inv2, of d'] by simp
        qed
      qed
    qed
  qed
qed

lemma addToCartRequest_inv:
  assumes "stockInvariant d"
    "addToCartRequest tok now userId sessionId product_id quantity (d, r) = (res, d', r')"
  shows "stockInvariant d'"
proof (cases "0 < quantity \<and> (truthy userId \<or> truthy sessionId)")
  case True
  then have "withLock (stockLockKey product_id) tok
               (addToCartLocked now userId sessionId product_id quantity) (d, r) = (res, d', r')"
    using assms(2) by (auto simp: addToCartRequest_def addToCart_def)
  from withLock_inv[OF this, of stockInvariant] assms(1) True addToCartLocked_inv
  show ?thesis by blast
next
  case False
  then show ?thesis using assms
    by (auto simp: addToCartRequest_def addToCart_def split: if_splits)
qed
lemma order_update_inv:
  assumes "order_update k f d = Inr d'" "stockInvariant d"
  shows "stockInvariant d'"
  using order_update_frame[OF assms(1)] stockInvariant_frame[OF assms(2), of d'] by simp

lemma orderItem_updateMany_status_inv:
  assumes "stockInvariant d"
  shows "stockInvariant (orderItem_updateMany P (\<lambda>i. i\<lparr>oi_status := st\<rparr>) d)"
  using assms by (auto simp: stockInvariant_def orderItem_updateMany_def)

lemma deductStock_inv:
  assumes "stockInvariant d" "0 \<le> ci_quantity (fst x)" "deductStock sid x d = (res, d')"
  shows "stockInvariant d'"
proof (cases res)
  case (Inl e)
  then show ?thesis using deductStock_Inl[of sid x d e d'] assms by simp
next
  case (Inr u)
  from deductStock_Inr[OF assms(3)[unfolded Inr]]
  obtain p where p: "products d (ci_product (fst x)) = Some p" "ci_quantity (fst x) \<le> p_stock p"
    "products d' = (products d)(ci_product (fst x) \<mapsto> shiftStock (- ci_quantity (fst x)) p)"
    "order_items d' = order_items d @
          [\<lparr>oi_id = next_id d, oi_order = sid, oi_product = ci_product (fst x),
            oi_seller = p_seller (snd x), oi_quantity = ci_quantity (fst x),
            oi_status = PENDING\<rparr>]"
    "cart_items d' = cart_items d" by blast
  show ?thesis
    using assms(1,2) p unfolding stockInvariant_def by (auto split: if_splits)
qed

lemma createOrderItems_inv:
  assumes "stockInvariant d" "\<forall>x\<in>set items. 0 \<le> ci_quantity (fst x)"
    "createOrderItems tok sid items (d, r) = (res, d', r')"
  shows "stockInvariant d'"
  using assms
proof (induction items arbitrary: d r)
  case Nil
  then show ?case by simp
next
  case (Cons x rest)
  obtain res1 d1 r1 where w: "withLock (stockLockKey (ci_product (fst x))) tok (deductStock sid x) (d, r)
                                = (res1, d1, r1)" by (metis prod_cases3)
  have inv1: "stockInvariant d1"
    using withLock_inv[OF w, of stockInvariant] Cons.prems(1,2) deductStock_inv[of d x sid] by auto
  show ?case
  proof (cases res1)
    case (Inl e)
    then show ?thesis using Cons.prems(3) w inv1 by simp
  next
    case (Inr u)
    then have "createOrderItems tok sid rest (d1, r1) = (res, d', r')"
      using Cons.prems(3) w by simp
    from Cons.IH[OF inv1 _ this] Cons.prems(2) show ?thesis by simp
  qed
qed

lemma createSubOrders_inv:
  assumes "stockInvariant d" "\<forall>x\<in>set (concat (map snd groups)). 0 \<le> ci_quantity (fst x)"
    "createSubOrders tok userId parentId groups (d, r) = (res, d', r')"
  shows "stockInvariant d'"
  using assms
proof (induction groups arbitrary: d r)
  case Nil
  then show ?case by simp
next
  case (Cons g rest)
  obtain sellerId items where g: "g = (sellerId, items)" by (cases g)
  define d1 where "d1 = snd (order_create
             \<lparr>o_id = 0, o_user = userId, o_parent = Some parentId, o_seller = Some sellerId,
              o_status = PENDING, o_payment = PAYMENT_PENDING, o_is_parent = False\<rparr> d)"
  have inv1: "stockInvariant d1"
    using Cons.prems(1) by (simp add: d1_def order_create_def stockInvariant_def)
  obtain res2 d2 r2 where ci: "createOrderItems tok (next_id d) items (d1, r) = (res2, d2, r2)"
    by (metis prod_cases3)
  have inv2: "stockInvariant d2"
    using createOrderItems_inv[OF inv1 _ ci] Cons.prems(2) g by simp
  show ?case
  proof (cases res2)
    case (Inl e)
    then show ?thesis using Cons.prems(3) g ci inv2 by (simp add: d1_def order_create_def)
  next
    case (Inr u)
    then have "createSubOrders tok userId parentId rest (d2, r2) = (res, d', r')"
      using Cons.prems(3) g ci by (simp add: d1_def order_create_def)
    from Cons.IH[OF inv2 _ this] Cons.prems(2) show ?thesis by simp
  qed
qed

lemma createOrder_inv:
  assumes "stockInvariant d" "createOrder tok now userId addressId (d, r) = (res, d', r')"
  shows "stockInvariant d'"
proof -
  from createOrder_cases[OF assms(2)]
  show ?thesis
  proof
    assume "\<exists>e. res = Inl e \<and> d' = d"
    then show ?thesis using assms(1) by auto
  next
    assume "\<exists>(cart::cart) resp. res = Inr resp
           \<and> find (\<lambda>c. c_user c = Some userId) (carts d) = Some cart
           \<and> validateItems now (c_id cart) (loadItems d (c_id cart)) d = None
           \<and> createOrderTx tok userId (c_id cart) (itemsBySeller (loadItems d (c_id cart))) (d, r)
                = (Inr (next_id d), d', r')
           \<and> getOrderById userId (next_id d) d' = Inr resp"
    then obtain cart :: cart where tx:
      "createOrderTx tok userId (c_id cart) (itemsBySeller (loadItems d (c_id cart))) (d, r)
                = (Inr (next_id d), d', r')" by blast
    let ?groups = "itemsBySeller (loadItems d (c_id cart))"
    define d1 where "d1 = snd (order_create
             \<lparr>o_id = 0, o_user = userId, o_parent = None, o_seller = None,
              o_status = PENDING, o_payment = PAYMENT_PENDING, o_is_parent = True\<rparr> d)"
    have inv1: "stockInvariant d1"
      using assms(1) by (simp add: d1_def order_create_def stockInvariant_def)
    obtain res2 d2 r2 where cs: "createSubOrders tok userId (next_id d) ?groups (d1, r) = (res2, d2, r2)"
      by (metis prod_cases3)
    have nn: "\<forall>x\<in>set (concat (map snd ?groups)). 0 \<le> ci_quantity (fst x)"
      using assms(1) loadItems_rows[of _ d "c_id cart"]
      unfolding itemsBySeller_set stockInvariant_def by blast
    have inv2: "stockInvariant d2" using createSubOrders_inv[OF inv1 nn cs] .
    have "d' = cartItem_deleteMany (\<lambda>i. ci_cart i = c_id cart) d2"
      using tx cs by (auto simp: createOrderTx_def d1_def order_create_def split: sum.splits)
    then show ?thesis using inv2 by (auto simp: stockInvariant_def cartItem_deleteMany_def)
  qed
qed

lemma product_increment_inv:
  assumes "stockInvariant d" "0 \<le> q" "product_increment pid q d = Inr d'"
  shows "stockInvariant d'"
proof -
  obtain p where p: "products d pid = Some p"
    and d': "d' = d\<lparr>products := (products d)(pid \<mapsto> p\<lparr>p_stock := p_stock p + q\<rparr>)\<rparr>"
    using assms(3) by (auto simp: product_increment_def split: option.splits)
  have p0: "0 \<le> p_stock p" using assms(1) p unfolding stockInvariant_def by blast
  have a: "\<forall>pid' p'. products d' pid' = Some p' \<longrightarrow> 0 \<le> p_stock p'"
  proof (intro allI impI)
    fix pid' p' assume h: "products d' pid' = Some p'"
    show "0 \<le> p_stock p'"
    proof (cases "pid' = pid")
      case True
      then have "p' = p\<lparr>p_stock := p_stock p + q\<rparr>" using h d' by simp
      then show ?thesis using p0 assms(2) by simp
    next
      case False
      then have "products d pid' = Some p'" using h d' by simp
      then show ?thesis using assms(1) unfolding stockInvariant_def by blast
    qed
  qed
  have b: "cart_items d' = cart_items d" "order_items d' = order_items d" using d' by simp_all
  show ?thesis using a b assms(1) unfolding stockInvariant_def by simp
qed
lemma restoreStock_inv:
  assumes "stockInvariant d" "\<forall>i\<in>set its. 0 \<le> oi_quantity i"
    "restoreStock tok its (d, r) = (res, d', r')"
  shows "stockInvariant d'"
  using assms
proof (induction its arbitrary: d r)
  case Nil
  then show ?case by simp
next
  case (Cons item rest)
  let ?fn = "\<lambda>d. case product_increment (oi_product item) (oi_quantity item) d of
                     Inl e \<Rightarrow> (Inl e, d)
                   | Inr d' \<Rightarrow> (Inr (), d')"
  have fn: "stockInvariant s'" if "?fn d = (res0, s')" for res0 s'
  proof (cases "product_increment (oi_product item) (oi_quantity item) d")
    case (Inl e)
    then show ?thesis using that Cons.prems(1) by simp
  next
    case (Inr d1)
    then have "s' = d1" using that by simp
    then show ?thesis
      using product_increment_inv[OF Cons.prems(1) _ Inr] Cons.prems(2) by simp
  qed
  obtain res1 d1 r1 where w: "withLock (stockLockKey (oi_product item)) tok ?fn (d, r) = (res1, d1, r1)"
    by (cases "withLock (stockLockKey (oi_product item)) tok ?fn (d, r)" rule: prod_cases3)
  have inv1: "stockInvariant d1"
  proof (rule withLock_inv[OF w])
    show "stockInvariant d" by (rule Cons.prems(1))
  next
    fix res0 s' assume "?fn d = (res0, s')"
    then show "stockInvariant s'" by (rule fn)
  qed
  show ?case
  proof (cases res1)
    case (Inl e)
    then show ?thesis using Cons.prems(3) w inv1 by simp
  next
    case (Inr u)
    then have "restoreStock tok rest (d1, r1) = (res, d', r')"
      using Cons.prems(3) w by simp
    from Cons.IH[OF inv1 _ this] Cons.prems(2) show ?thesis by simp
  qed
qed

lemma cancelSubOrders_inv:
  assumes "stockInvariant d" "\<forall>x\<in>set subs. \<forall>i\<in>set (snd x). 0 \<le> oi_quantity i"
    "cancelSubOrders tok subs (d, r) = (res, d', r')"
  shows "stockInvariant d'"
  using assms
proof (induction subs arbitrary: d r)
  case Nil
  then show ?case by simp
next
  case (Cons x rest)
  obtain so its where x: "x = (so, its)" by (cases x)
  let ?f = "\<lambda>od. od\<lparr>o_status := CANCELLED, o_payment := REFUNDED\<rparr>"
  show ?case
  proof (cases "order_update (o_id so) ?f d")
    case (Inl e)
    then show ?thesis using Cons.prems(1,3) x by simp
  next
    case (Inr d1)
    define d2 where "d2 = orderItem_updateMany (\<lambda>i. oi_order i = o_id so)
                     (\<lambda>i. i\<lparr>oi_status := CANCELLED\<rparr>) d1"
    have inv2: "stockInvariant d2"
      unfolding d2_def
      using orderItem_updateMany_status_inv[OF order_update_inv[OF Inr Cons.prems(1)]] .
    obtain res3 d3 r3 where rs: "restoreStock tok its (d2, r) = (res3, d3, r3)"
      by (cases "restoreStock tok its (d2, r)" rule: prod_cases3)
    have inv3: "stockInvariant d3"
      using restoreStock_inv[OF inv2 _ rs] Cons.prems(2) x by simp
    show ?thesis
    proof (cases res3)
      case (Inl e)
      then show ?thesis using Cons.prems(3) x Inr rs inv3 by (simp add: d2_def)
    next
      case Inr3: (Inr u)
      then have "cancelSubOrders tok rest (d3, r3) = (res, d', r')"
        using Cons.prems(3) x Inr rs by (simp add: d2_def)
      from Cons.IH[OF inv3 _ this] Cons.prems(2) show ?thesis by simp
    qed
  qed
qed

lemma items_of_nonneg:
  "stockInvariant d \<Longrightarrow> \<forall>i\<in>set (items_of d k). 0 \<le> oi_quantity i"
  by (auto simp: stockInvariant_def items_of_def)

lemma cancelOrderTx_inv:
  assumes "stockInvariant d" "\<forall>i\<in>set items. 0 \<le> oi_quantity i"
    "\<forall>x\<in>set subs. \<forall>i\<in>set (snd x). 0 \<le> oi_quantity i"
    "cancelOrderTx tok orderId order items subs (d, r) = (res, d', r')"
  shows "stockInvariant d'"
proof -
  let ?f = "\<lambda>od. od\<lparr>o_status := CANCELLED, o_payment := REFUNDED\<rparr>"
  define first where "first = (if o_is_parent order \<and> length subs > 0
            then cancelSubOrders tok subs (d, r)
            else (case restoreStock tok items (d, r) of
                    (Inl e, s') \<Rightarrow> (Inl e, s')
                  | (Inr u, d', r') \<Rightarrow>
                     (Inr (), orderItem_updateMany (\<lambda>i. oi_order i = orderId)
                                (\<lambda>i. i\<lparr>oi_status := CANCELLED\<rparr>) d', r')))"
  have tx_eq: "cancelOrderTx tok orderId order items subs (d, r)
       = (case first of
            (Inl e, s') \<Rightarrow> (Inl e, s')
          | (Inr u, d', r') \<Rightarrow>
             (case order_update orderId ?f d' of
                Inl e \<Rightarrow> (Inl e, d', r')
              | Inr d'' \<Rightarrow> (Inr (), d'', r')))"
    by (simp only: cancelOrderTx_def first_def)
  obtain res1 d1 r1 where f: "first = (res1, d1, r1)" by (cases first rule: prod_cases3)
  have inv1: "stockInvariant d1"
  proof (cases "o_is_parent order \<and> length subs > 0")
    case True
    then have "cancelSubOrders tok subs (d, r) = (res1, d1, r1)" using f by (simp add: first_def)
    from cancelSubOrders_inv[OF assms(1,3) this] show ?thesis .
  next
    case False
    obtain res0 d0 r0 where rs: "restoreStock tok items (d, r) = (res0, d0, r0)"
      by (cases "restoreStock tok items (d, r)" rule: prod_cases3)
    have inv0: "stockInvariant d0" using restoreStock_inv[OF assms(1,2) rs] .
    show ?thesis
    proof (cases res0)
      case (Inl e)
      then show ?thesis using f False rs inv0 by (auto simp: first_def split: if_splits)
    next
      case (Inr u)
      then have "d1 = orderItem_updateMany (\<lambda>i. oi_order i = orderId)
                                (\<lambda>i. i\<lparr>oi_status := CANCELLED\<rparr>) d0"
        using f False rs by (auto simp: first_def split: if_splits)
      then show ?thesis using orderItem_updateMany_status_inv[OF inv0] by simp
    qed
  qed
  show ?thesis
  proof (cases res1)
    case (Inl e)
    then show ?thesis using assms(4) f inv1 by (simp add: tx_eq)
  next
    case (Inr u)
    show ?thesis
    proof (cases "order_update orderId ?f d1")
      case Inl2: (Inl e)
      then show ?thesis using assms(4) f inv1 Inr
        by (simp add: tx_eq)
    next
      case Inr2: (Inr d2)
      then have "d' = d2" using assms(4) f Inr
        by (simp add: tx_eq)
      then show ?thesis using order_update_inv[OF Inr2 inv1] by simp
    qed
  qed
qed

lemma transaction_inv:
  assumes "transaction body (d, r) = (res, d', r')" "P d"
    "\<And>res d' r'. body (d, r) = (res, d', r') \<Longrightarrow> P d'"
  shows "P d'"
proof -
  obtain res1 d1 r1 where b: "body (d, r) = (res1, d1, r1)"
    by (cases "body (d, r)" rule: prod_cases3)
  show ?thesis
  proof (cases res1)
    case (Inl e)
    then show ?thesis using assms(1,2) b by (simp add: transaction_def)
  next
    case (Inr v)
    then have "d' = d1" using assms(1) b by (simp add: transaction_def)
    then show ?thesis using assms(3)[OF b] by simp
  qed
qed

lemma cancelOrder_inv:
  assumes "stockInvariant d" "cancelOrder tok userId orderId (d, r) = (res, d', r')"
  shows "stockInvariant d'"
proof (cases "find (\<lambda>od. o_id od = orderId \<and> o_user od = userId) (orders d)")
  case None
  then show ?thesis using assms by (auto simp: cancelOrder_def)
next
  case (Some order)
  show ?thesis
  proof (cases "o_status order \<noteq> PENDING")
    case True
    then show ?thesis using assms Some by (auto simp: cancelOrder_def)
  next
    case False
    let ?items = "items_of d (o_id order)"
    let ?subs = "map (\<lambda>subOrder. (subOrder, items_of d (o_id subOrder))) (sub_orders d (o_id order))"
    obtain res1 d1 r1 where t: "transaction (cancelOrderTx tok orderId order ?items ?subs) (d, r)
                                  = (res1, d1, r1)"
      by (cases "transaction (cancelOrderTx tok orderId order ?items ?subs) (d, r)" rule: prod_cases3)
    have nn: "\<forall>x\<in>set ?subs. \<forall>i\<in>set (snd x). 0 \<le> oi_quantity i"
      using items_of_nonneg[OF assms(1)] by auto
    have inv1: "stockInvariant d1"
    proof (rule transaction_inv[OF t])
      show "stockInvariant d" by (rule assms(1))
    next
      fix res0 d0 r0 assume "cancelOrderTx tok orderId order ?items ?subs (d, r) = (res0, d0, r0)"
      from cancelOrderTx_inv[OF assms(1) items_of_nonneg[OF assms(1)] nn this]
      show "stockInvariant d0" .
    qed
    have "d' = d1" using assms(2) Some False t
      by (auto simp: cancelOrder_def Let_def split: sum.splits)
    then show ?thesis using inv1 by simp
  qed
qed

lemma cancelSubOrderTx_inv:
  assumes "stockInvariant d" "\<forall>i\<in>set items. 0 \<le> oi_quantity i"
    "cancelSubOrderTx tok subOrderId subOrder items (d, r) = (res, d', r')"
  shows "stockInvariant d'"
proof -
  let ?f = "\<lambda>od. od\<lparr>o_status := CANCELLED, o_payment := REFUNDED\<rparr>"
  show ?thesis
  proof (cases "order_update subOrderId ?f d")
    case (Inl e)
    then show ?thesis using assms(1,3) by (simp add: cancelSubOrderTx_def)
  next
    case (Inr d1)
    define d2 where "d2 = orderItem_updateMany (\<lambda>i. oi_order i = subOrderId)
                     (\<lambda>i. i\<lparr>oi_status := CANCELLED\<rparr>) d1"
    have inv2: "stockInvariant d2"
      unfolding d2_def using orderItem_updateMany_status_inv[OF order_update_inv[OF Inr assms(1)]] .
    obtain res3 d3 r3 where rs: "restoreStock tok items (d2, r) = (res3, d3, r3)"
      by (cases "restoreStock tok items (d2, r)" rule: prod_cases3)
    have inv3: "stockInvariant d3" using restoreStock_inv[OF inv2 assms(2) rs] .
    show ?thesis
    proof (cases res3)
      case Inl3: (Inl e)
      then show ?thesis using assms(3) Inr rs inv3 by (simp add: cancelSubOrderTx_def d2_def)
    next
      case Inr3: (Inr u)
      show ?thesis
      proof (cases "o_parent subOrder")
        case None
        then show ?thesis using assms(3) Inr rs Inr3 inv3
          by (simp add: cancelSubOrderTx_def d2_def)
      next
        case (Some parent_order_id)
        show ?thesis
        proof (cases "list_all (\<lambda>od. o_id od = subOrderId \<or> o_status od = CANCELLED)
                             (sub_orders d3 parent_order_id)")
          case False
          then show ?thesis using assms(3) Inr rs Inr3 inv3 Some
            by (simp add: cancelSubOrderTx_def d2_def Let_def)
        next
          case True
          show ?thesis
          proof (cases "order_update parent_order_id ?f d3")
            case Inl4: (Inl e)
            then show ?thesis using assms(3) Inr rs Inr3 inv3 Some True
              by (simp add: cancelSubOrderTx_def d2_def Let_def)
          next
            case Inr4: (Inr d4)
            then have "d' = d4" using assms(3) Inr rs Inr3 Some True
              by (simp add: cancelSubOrderTx_def d2_def Let_def)
            then show ?thesis using order_update_inv[OF Inr4 inv3] by simp
          qed
        qed
      qed
    qed
  qed
qed

lemma cancelSubOrder_inv:
  assumes "stockInvariant d" "cancelSubOrder tok sellerId subOrderId (d, r) = (res, d', r')"
  shows "stockInvariant d'"
proof (cases "find (\<lambda>od. o_id od = subOrderId \<and> o_seller od = Some sellerId \<and> \<not> o_is_parent od)
             (orders d)")
  case None
  then show ?thesis using assms by (auto simp: cancelSubOrder_def)
next
  case (Some subOrder)
  show ?thesis
  proof (cases "o_status subOrder \<noteq> PENDING \<and> o_status subOrder \<noteq> CONFIRMED")
    case True
    then show ?thesis using assms Some by (auto simp: cancelSubOrder_def)
  next
    case False
    let ?items = "items_of d (o_id subOrder)"
    obtain res1 d1 r1 where t: "transaction (cancelSubOrderTx tok subOrderId subOrder ?items) (d, r)
                                  = (res1, d1, r1)"
      by (cases "transaction (cancelSubOrderTx tok subOrderId subOrder ?items) (d, r)" rule: prod_cases3)
    have inv1: "stockInvariant d1"
    proof (rule transaction_inv[OF t])
      show "stockInvariant d" by (rule assms(1))
    next
      fix res0 d0 r0 assume "cancelSubOrderTx tok subOrderId subOrder ?items (d, r) = (res0, d0, r0)"
      from cancelSubOrderTx_inv[OF assms(1) items_of_nonneg[OF assms(1)] this]
      show "stockInvariant d0" .
    qed
    have "d' = d1" using assms(2) Some False t
      by (auto simp: cancelSubOrder_def Let_def split: sum.splits option.splits)
    then show ?thesis using inv1 by simp
  qed
qed

lemma step_inv:
  assumes "stockInvariant (fst s)"
  shows "stockInvariant (fst (step op s))"
proof -
  obtain d r where s: "s = (d, r)" by (cases s)
  show ?thesis
  proof (cases op)
    case (CreateOrder tok now userId addressId)
    obtain res d' r' where "createOrder tok now userId addressId (d, r) = (res, d', r')"
      by (cases "createOrder tok now userId addressId (d, r)" rule: prod_cases3)
    then show ?thesis using createOrder_inv[of d tok now userId addressId r res d' r'] assms s CreateOrder
      by simp
  next
    case (CancelOrder tok userId orderId)
    obtain res d' r' where "cancelOrder tok userId orderId (d, r) = (res, d', r')"
      by (cases "cancelOrder tok userId orderId (d, r)" rule: prod_cases3)
    then show ?thesis using cancelOrder_inv[of d tok userId orderId r res d' r'] assms s CancelOrder
      by simp
  next
    case (CancelSubOrder tok sellerId subOrderId)
    obtain res d' r' where "cancelSubOrder tok sellerId subOrderId (d, r) = (res, d', r')"
      by (cases "cancelSubOrder tok sellerId subOrderId (d, r)" rule: prod_cases3)
    then show ?thesis
      using cancelSubOrder_inv[of d tok sellerId subOrderId r res d' r'] assms s CancelSubOrder
      by simp
  next
    case (AddToCart tok now userId sessionId product_id quantity)
    obtain res d' r' where
      "addToCartRequest tok now userId sessionId product_id quantity (d, r) = (res, d', r')"
      by (cases "addToCartRequest tok now userId sessionId product_id quantity (d, r)" rule: prod_cases3)
    then show ?thesis
      using addToCartRequest_inv[of d tok now userId sessionId product_id quantity r res d' r']
        assms s AddToCart
      by simp
  qed
qed

lemma run_inv:
  "stockInvariant (fst s) \<Longrightarrow> stockInvariant (fst (run ops s))"
  unfolding run_def
  by (induction ops arbitrary: s) (simp_all add: step_inv)
text \<open>
  C1. Starting from a database in which no stock counter and no stored quantity is
  negative, after every sequence of \<^verbatim>\<open>createOrder\<close>, \<^verbatim>\<open>cancelOrder\<close>,
  \<^verbatim>\<open>cancelSubOrder\<close> and \<^verbatim>\<open>addToCart\<close> requests every product's stock counter is
  still non-negative. The conditional decrement changes a row exactly when the product
  exists with stock at least the quantity, and then subtracts the quantity; otherwise it
  changes nothing. The increment adds the quantity to the stock.
\<close>

theorem stock_never_negative:
  assumes "\<forall>pid p. products d pid = Some p \<longrightarrow> 0 \<le> p_stock p"
    and "\<forall>i\<in>set (cart_items d). 0 \<le> ci_quantity i"
    and "\<forall>i\<in>set (order_items d). 0 \<le> oi_quantity i"
  shows "(\<forall>pid p. products (fst (run ops (d, r))) pid = Some p \<longrightarrow> 0 \<le> p_stock p)
     \<and> (fst (product_decrementIfAvailable product_id quantity d0) = 1
          \<longleftrightarrow> (\<exists>p. products d0 product_id = Some p \<and> quantity \<le> p_stock p))
     \<and> (\<forall>p. products d0 product_id = Some p \<and> quantity \<le> p_stock p \<longrightarrow>
          products (snd (product_decrementIfAvailable product_id quantity d0))
            = (products d0)(product_id \<mapsto> p\<lparr>p_stock := p_stock p - quantity\<rparr>))
     \<and> (fst (product_decrementIfAvailable product_id quantity d0) \<noteq> 1 \<longrightarrow>
          snd (product_decrementIfAvailable product_id quantity d0) = d0)
     \<and> (\<forall>p. products d0 product_id = Some p \<longrightarrow>
          product_increment product_id quantity d0
            = Inr (d0\<lparr>products := (products d0)(product_id \<mapsto> p\<lparr>p_stock := p_stock p + quantity\<rparr>)\<rparr>))"
proof (intro conjI)
  have "stockInvariant (fst (d, r))" using assms by (simp add: stockInvariant_def)
  from run_inv[OF this, of ops]
  show "\<forall>pid p. products (fst (run ops (d, r))) pid = Some p \<longrightarrow> 0 \<le> p_stock p"
    by (simp add: stockInvariant_def)
next
  show "fst (product_decrementIfAvailable product_id quantity d0) = 1
          \<longleftrightarrow> (\<exists>p. products d0 product_id = Some p \<and> quantity \<le> p_stock p)"
    by (auto simp: product_decrementIfAvailable_def split: option.splits)
next
  show "\<forall>p. products d0 product_id = Some p \<and> quantity \<le> p_stock p \<longrightarrow>
          products (snd (product_decrementIfAvailable product_id quantity d0))
            = (products d0)(product_id \<mapsto> p\<lparr>p_stock := p_stock p - quantity\<rparr>)"
    by (auto simp: product_decrementIfAvailable_def)
next
  show "fst (product_decrementIfAvailable product_id quantity d0) \<noteq> 1 \<longrightarrow>
          snd (product_decrementIfAvailable product_id quantity d0) = d0"
    by (auto simp: product_decrementIfAvailable_def split: option.splits)
next
  show "\<forall>p. products d0 product_id = Some p \<longrightarrow>
          product_increment product_id quantity d0
            = Inr (d0\<lparr>products := (products d0)(product_id \<mapsto> p\<lparr>p_stock := p_stock p + quantity\<rparr>)\<rparr>)"
    by (auto simp: product_increment_def)
qed

theorem stock_never_negative_witness:
  "map_option p_stock (products (fst (run ops_example (db_two, Map.empty))) ''p1'') = Some 0
   \<and> map_option (\<lambda>p. 0 \<le> p_stock p) (products (fst (run ops_example (db_two, Map.empty))) ''p1'')
       = Some True
   \<and> fst (product_decrementIfAvailable ''p1'' 3 db_two) = 1
   \<and> fst (product_decrementIfAvailable ''p1'' 4 db_two) = 0
   \<and> snd (product_decrementIfAvailable ''p1'' 4 db_two) = db_two"
proof -
  have h1: "\<forall>pid p. products db_two pid = Some p \<longrightarrow> 0 \<le> p_stock p"
    by (auto simp: db_two_def split: if_splits)
  have h2: "\<forall>i\<in>set (cart_items db_two). 0 \<le> ci_quantity i" by (simp add: db_two_def)
  have h3: "\<forall>i\<in>set (order_items db_two). 0 \<le> oi_quantity i" by (simp add: db_two_def)
  have w1: "map_option p_stock (products (fst (run ops_example (db_two, Map.empty))) ''p1'') = Some 0"
    by code_simp
  note t3 = stock_never_negative[OF h1 h2 h3, of ops_example Map.empty "''p1''" 3 db_two]
  note t4 = stock_never_negative[OF h1 h2 h3, of ops_example Map.empty "''p1''" 4 db_two]
  have w2: "map_option (\<lambda>p. 0 \<le> p_stock p) (products (fst (run ops_example (db_two, Map.empty))) ''p1'')
       = Some True"
    using t3 w1 by (cases "products (fst (run ops_example (db_two, Map.empty))) ''p1''") auto
  have p1: "products db_two ''p1'' = Some \<lparr>p_stock = 3, p_seller = ''s1''\<rparr>"
    by (simp add: db_two_def)
  have w3: "fst (product_decrementIfAvailable ''p1'' 3 db_two) = 1"
    using t3 p1 by simp
  have n4: "fst (product_decrementIfAvailable ''p1'' 4 db_two) \<noteq> 1"
    using t4 p1 by simp
  have w4: "fst (product_decrementIfAvailable ''p1'' 4 db_two) = 0"
    by (simp add: product_decrementIfAvailable_def p1)
  have w5: "snd (product_decrementIfAvailable ''p1'' 4 db_two) = db_two"
    using t4 n4 by blast
  from w1 w2 w3 w4 w5 show ?thesis by blast
qed

end
